theory Spec2Isabelle
  imports Complex_Main
begin

section \<open>JavaScript strings\<close>

text \<open>
  A JavaScript string is a sequence of UTF-16 code units. The model covers the strings
  whose code units are all below U+0100: a \<^typ>\<open>char\<close> is read as the code unit with
  the same number, so \<^typ>\<open>string\<close> is a Latin-1 text. On that range \<open>toLowerCase\<close>,
  the classes \<open>\s\<close> and \<open>\w\<close> of a regular expression without the \<open>u\<close> flag, and
  \<open>trim\<close> are as defined below.
\<close>

definition is_space :: "char \<Rightarrow> bool" where
  \<comment> \<open>\<open>\s\<close>: tab, line feed, vertical tab, form feed, carriage return, space, no-break space\<close>
  "is_space c = (of_char c \<in> {9, 10, 11, 12, 13, 32, 160 :: nat})"

definition is_word :: "char \<Rightarrow> bool" where
  \<comment> \<open>\<open>\w\<close> is \<open>[A-Za-z0-9_]\<close>\<close>
  "is_word c = (let n = (of_char c :: nat) in
     (48 \<le> n \<and> n \<le> 57) \<or> (65 \<le> n \<and> n \<le> 90) \<or> n = 95 \<or> (97 \<le> n \<and> n \<le> 122))"

definition lower_char :: "char \<Rightarrow> char" where
  \<comment> \<open>A-Z, and the Latin-1 capitals U+00C0..U+00DE except the multiplication sign\<close>
  "lower_char c = (let n = (of_char c :: nat) in
     if (65 \<le> n \<and> n \<le> 90) \<or> (192 \<le> n \<and> n \<le> 222 \<and> n \<noteq> 215)
     then char_of (n + 32) else c)"

definition toLowerCase :: "string \<Rightarrow> string" where
  "toLowerCase s = map lower_char s"

definition strip_non_word :: "string \<Rightarrow> string" where
  \<comment> \<open>\<open>.replace(/[^\w\s]/g, "")\<close>\<close>
  "strip_non_word s = filter (\<lambda>c. is_word c \<or> is_space c) s"

function split_ws :: "string \<Rightarrow> string list" where
  \<comment> \<open>\<open>.split(/\s+/)\<close>: the fields between the maximal runs of white space, empty fields kept\<close>
  "split_ws s =
     (let field = takeWhile (\<lambda>c. \<not> is_space c) s;
          rest = dropWhile (\<lambda>c. \<not> is_space c) s
      in if rest = [] then [field] else field # split_ws (dropWhile is_space rest))"
  by pat_completeness auto
termination
proof (relation "measure length")
  show "wf (measure length)" by simp
next
  fix s :: string and field rest
  assume r: "rest = dropWhile (\<lambda>c. \<not> is_space c) s" and ne: "rest \<noteq> []"
  from ne obtain c cs where rc: "rest = c # cs" by (cases rest) auto
  have "length (dropWhile is_space rest) \<le> length cs"
  proof -
    have "is_space c" using r rc dropWhile_eq_Cons_conv [of "\<lambda>c. \<not> is_space c" s c cs] by simp
    then have "dropWhile is_space rest = dropWhile is_space cs" using rc by simp
    then show ?thesis by (simp add: length_dropWhile_le)
  qed
  moreover have "length rest \<le> length s" using r by (simp add: length_dropWhile_le)
  ultimately show "(dropWhile is_space rest, s) \<in> measure length" using rc by simp
qed

declare split_ws.simps [simp del]

function collapse_ws :: "string \<Rightarrow> string" where
  \<comment> \<open>\<open>.replace(/\s+/g, " ")\<close>: every maximal run of white space becomes one space\<close>
  "collapse_ws [] = []"
| "collapse_ws (c # cs) =
     (if is_space c then CHR '' '' # collapse_ws (dropWhile is_space cs)
      else c # collapse_ws cs)"
  by pat_completeness auto
termination
  by (relation "measure length") (auto simp: length_dropWhile_le less_Suc_eq_le)

definition delete_ws :: "string \<Rightarrow> string" where
  \<comment> \<open>\<open>.replace(/\s+/g, "")\<close>: every run of white space is deleted\<close>
  "delete_ws s = filter (\<lambda>c. \<not> is_space c) s"

definition trim :: "string \<Rightarrow> string" where
  "trim s = rev (dropWhile is_space (rev (dropWhile is_space s)))"

fun replace_first_space :: "string \<Rightarrow> string" where
  \<comment> \<open>\<open>.replace(" ", "-")\<close> with a string pattern: the first occurrence only\<close>
  "replace_first_space [] = []"
| "replace_first_space (c # cs) =
     (if c = CHR '' '' then CHR ''-'' # cs else c # replace_first_space cs)"

section \<open>JavaScript values and plain objects\<close>

text \<open>
  The values that the word-count table, the vocabulary and the functions that return
  \<open>string | null\<close> hold at run time. \<open>Fn name\<close> is a built-in function object,
  \<open>ProtoObj\<close> is the object \<open>Object.prototype\<close>. Numbers are the integers (the counts
  and ids of the program stay far below \<open>2^53\<close>) and \<open>NaN\<close>.
\<close>

datatype jsval = Num int | NaN | Str string | Fn string | ProtoObj | Null | Undefined

fun truthy :: "jsval \<Rightarrow> bool" where
  "truthy (Num n) = (n \<noteq> 0)"
| "truthy NaN = False"
| "truthy (Str s) = (s \<noteq> [])"
| "truthy (Fn f) = True"
| "truthy ProtoObj = True"
| "truthy Null = False"
| "truthy Undefined = False"

definition js_or :: "jsval \<Rightarrow> jsval \<Rightarrow> jsval" where
  \<comment> \<open>\<open>a || b\<close>\<close>
  "js_or a b = (if truthy a then a else b)"

definition native_text :: "string \<Rightarrow> string" where
  \<comment> \<open>the source text of a built-in function, as \<open>Function.prototype.toString\<close> gives it\<close>
  "native_text f = ''function '' @ f @ ''() { [native code] }''"

fun js_add_one :: "jsval \<Rightarrow> jsval" where
  \<comment> \<open>\<open>v + 1\<close>: addition on a number, concatenation with \<open>"1"\<close> once an operand is a
      string or an object (whose primitive value is a string)\<close>
  "js_add_one (Num n) = Num (n + 1)"
| "js_add_one NaN = NaN"
| "js_add_one (Str s) = Str (s @ ''1'')"
| "js_add_one (Fn f) = Str (native_text f @ ''1'')"
| "js_add_one ProtoObj = Str (''[object Object]'' @ ''1'')"
| "js_add_one Null = Num 1"
| "js_add_one Undefined = NaN"

fun js_sub :: "jsval \<Rightarrow> jsval \<Rightarrow> jsval" where
  \<comment> \<open>\<open>a - b\<close> on the values a word count can be (\<open>wordCounts_values\<close> below): a
      number, or a string that starts with the text of a function and so converts to
      \<open>NaN\<close>\<close>
  "js_sub (Num a) (Num b) = Num (a - b)"
| "js_sub a b = NaN"

type_synonym js_object = "(string \<times> jsval) list"
  \<comment> \<open>the own properties of a plain object (prototype \<open>Object.prototype\<close>), in the order
      they were created\<close>

definition object_prototype :: "string \<Rightarrow> jsval" where
  \<comment> \<open>the properties every plain object inherits\<close>
  "object_prototype k =
     (if k = ''__proto__'' then ProtoObj
      else if k \<in> set [''constructor'', ''hasOwnProperty'', ''isPrototypeOf'',
                       ''propertyIsEnumerable'', ''toLocaleString'', ''toString'', ''valueOf'',
                       ''__defineGetter__'', ''__defineSetter__'', ''__lookupGetter__'',
                       ''__lookupSetter__'']
      then Fn (if k = ''constructor'' then ''Object'' else k)
      else Undefined)"

definition get_prop :: "js_object \<Rightarrow> string \<Rightarrow> jsval" where
  \<comment> \<open>\<open>obj[k]\<close>: the own property, else the inherited one, else \<open>undefined\<close>\<close>
  "get_prop obj k = (case map_of obj k of Some v \<Rightarrow> v | None \<Rightarrow> object_prototype k)"

fun own_update :: "js_object \<Rightarrow> string \<Rightarrow> jsval \<Rightarrow> js_object" where
  \<comment> \<open>an existing own property keeps its place, a new one is created last\<close>
  "own_update [] k v = [(k, v)]"
| "own_update ((k', v') # ps) k v =
     (if k' = k then (k, v) # ps else (k', v') # own_update ps k v)"

definition is_object :: "jsval \<Rightarrow> bool" where
  "is_object v = (case v of Fn f \<Rightarrow> True | ProtoObj \<Rightarrow> True | _ \<Rightarrow> False)"

definition set_prop :: "js_object \<Rightarrow> string \<Rightarrow> jsval \<Rightarrow> js_object" where
  \<comment> \<open>\<open>obj[k] = v\<close>. The inherited \<open>__proto__\<close> is an accessor: its setter ignores a value
      that is neither an object nor \<open>null\<close> and creates no own property. (Given an object
      or \<open>null\<close> it would replace the prototype; the program never assigns one.)\<close>
  "set_prop obj k v =
     (if k = ''__proto__'' \<and> map_of obj k = None then obj else own_update obj k v)"

definition digits_value :: "string \<Rightarrow> int" where
  "digits_value s = foldl (\<lambda>a c. 10 * a + (of_char c - 48)) 0 s"

definition is_array_index :: "string \<Rightarrow> bool" where
  \<comment> \<open>a canonical numeric string of an integer in \<open>0 .. 2^32 - 2\<close>\<close>
  "is_array_index s =
     (s \<noteq> [] \<and> list_all (\<lambda>c. 48 \<le> (of_char c :: nat) \<and> (of_char c :: nat) \<le> 57) s
      \<and> (s = ''0'' \<or> hd s \<noteq> CHR ''0'') \<and> digits_value s \<le> 4294967294)"

definition object_keys :: "js_object \<Rightarrow> string list" where
  \<comment> \<open>\<open>Object.keys(obj)\<close>: the array indices in ascending numeric order, then the other
      strings in creation order\<close>
  "object_keys obj =
     sort_key digits_value (filter is_array_index (map fst obj))
     @ filter (\<lambda>k. \<not> is_array_index k) (map fst obj)"

definition sort_compare :: "(string \<Rightarrow> string \<Rightarrow> jsval) \<Rightarrow> string \<Rightarrow> string \<Rightarrow> int" where
  \<comment> \<open>the number \<open>Array.prototype.sort\<close> takes from its comparator: \<open>NaN\<close> counts as \<open>+0\<close>\<close>
  "sort_compare cmp a b = (case cmp a b of Num n \<Rightarrow> n | _ \<Rightarrow> 0)"

fun js_insert :: "(string \<Rightarrow> string \<Rightarrow> jsval) \<Rightarrow> string \<Rightarrow> string list \<Rightarrow> string list" where
  "js_insert cmp x [] = [x]"
| "js_insert cmp x (y # ys) =
     (if sort_compare cmp x y \<le> 0 then x # y # ys else y # js_insert cmp x ys)"

definition stable_sort :: "(string \<Rightarrow> string \<Rightarrow> jsval) \<Rightarrow> string list \<Rightarrow> string list" where
  \<comment> \<open>the sorted order in which elements that compare equal keep their order\<close>
  "stable_sort cmp xs = foldr (js_insert cmp) xs []"

definition consistent :: "(string \<Rightarrow> string \<Rightarrow> int) \<Rightarrow> string list \<Rightarrow> bool" where
  \<comment> \<open>the requirements of the language on a comparison function (reflexivity and
      symmetry of "equal", transitivity of "equal", "less" and "greater"), read on the
      numbers \<open>c\<close> that the sorting algorithm is handed for the elements of \<open>xs\<close>\<close>
  "consistent c xs =
     (list_all (\<lambda>a. c a a = 0) xs
      \<and> list_all (\<lambda>a. list_all (\<lambda>b. if c a b = 0 then c b a = 0 else True) xs) xs
      \<and> list_all (\<lambda>a. list_all (\<lambda>b. list_all (\<lambda>d.
            (if c a b = 0 \<and> c b d = 0 then c a d = 0 else True)
            \<and> (if c a b < 0 \<and> c b d < 0 then c a d < 0 else True)
            \<and> (if c a b > 0 \<and> c b d > 0 then c a d > 0 else True)) xs) xs) xs)"

type_synonym engine = "(string \<Rightarrow> string \<Rightarrow> int) \<Rightarrow> string list \<Rightarrow> string list"
  \<comment> \<open>what the JavaScript engine at hand makes of an array under a comparison that is not
      consistent: there the language leaves the order to the implementation, and the
      engines differ\<close>

definition js_sort :: "engine \<Rightarrow> (string \<Rightarrow> string \<Rightarrow> jsval) \<Rightarrow> string list \<Rightarrow> string list" where
  \<comment> \<open>\<open>Array.prototype.sort(cmp)\<close>. Under a consistent comparison the result is fixed by
      the language: sorted, and stable. Otherwise it is the engine's.\<close>
  "js_sort engine cmp xs =
     (if consistent (sort_compare cmp) xs then stable_sort cmp xs
      else engine (sort_compare cmp) xs)"

section \<open>The classifier: vocabulary and sequence encoding\<close>

record email_doc =
  content :: string
  label :: string

definition VOCAB_SIZE :: nat where "VOCAB_SIZE = 5000"
definition MAX_SEQUENCE_LENGTH :: nat where "MAX_SEQUENCE_LENGTH = 100"

definition tokens_of :: "string \<Rightarrow> string list" where
  \<comment> \<open>the two statements that open both \<open>createVocabulary\<close>'s loop body and
      \<open>textToSequence\<close>: lower-case, delete what is neither \<open>\w\<close> nor \<open>\s\<close>, split on
      white space, drop the empty fields\<close>
  "tokens_of text =
     (let cleanedText = strip_non_word (toLowerCase text)
      in filter (\<lambda>token. length token > 0) (split_ws cleanedText))"

fun count_tokens :: "js_object \<Rightarrow> string list \<Rightarrow> js_object" where
  \<comment> \<open>\<open>for (const token of tokens) wordCounts[token] = (wordCounts[token] || 0) + 1\<close>\<close>
  "count_tokens wordCounts [] = wordCounts"
| "count_tokens wordCounts (token # tokens) =
     count_tokens
       (set_prop wordCounts token (js_add_one (js_or (get_prop wordCounts token) (Num 0))))
       tokens"

fun count_emails :: "js_object \<Rightarrow> email_doc list \<Rightarrow> js_object" where
  "count_emails wordCounts [] = wordCounts"
| "count_emails wordCounts (email # emails) =
     count_emails (count_tokens wordCounts (tokens_of (content email))) emails"

fun assign_ids :: "js_object \<Rightarrow> nat \<Rightarrow> string list \<Rightarrow> js_object" where
  \<comment> \<open>\<open>for (i = 0; i < topWords.length; i++) vocabulary[topWords[i]] = i + 2\<close>, on the
      words from position \<open>i\<close> on\<close>
  "assign_ids vocabulary i [] = vocabulary"
| "assign_ids vocabulary i (w # ws) =
     assign_ids (set_prop vocabulary w (Num (int i + 2))) (Suc i) ws"

definition createVocabulary :: "engine \<Rightarrow> email_doc list \<Rightarrow> js_object" where
  "createVocabulary engine emails =
     (let wordCounts = count_emails [] emails;
          sortedWords = js_sort engine (\<lambda>a b. js_sub (get_prop wordCounts b) (get_prop wordCounts a))
                          (object_keys wordCounts);
          topWords = take (VOCAB_SIZE - 2) sortedWords
      in assign_ids [(''<PAD>'', Num 0), (''<UNK>'', Num 1)] 0 topWords)"

definition padSequence :: "jsval list \<Rightarrow> nat \<Rightarrow> jsval \<Rightarrow> jsval list" where
  "padSequence sequence maxLength paddingValue =
     (if length sequence \<ge> maxLength then take maxLength sequence
      else sequence @ replicate (maxLength - length sequence) paddingValue)"

definition textToSequence :: "string \<Rightarrow> js_object \<Rightarrow> jsval list" where
  "textToSequence text vocabulary =
     (let tokens = tokens_of text;
          sequence = map (\<lambda>token. js_or (get_prop vocabulary token) (get_prop vocabulary ''<UNK>''))
                       tokens
      in padSequence sequence MAX_SEQUENCE_LENGTH (Num 0))"

definition vocab_size :: "js_object \<Rightarrow> nat" where
  \<comment> \<open>\<open>Object.keys(vocabulary).length\<close>\<close>
  "vocab_size vocabulary = length (object_keys vocabulary)"

section \<open>Training and the artifact store\<close>

datatype error = Err string
  \<comment> \<open>the reason with which an awaited call rejects\<close>

datatype tfmodel = Model (forward: "jsval list \<Rightarrow> error + real list")
  \<comment> \<open>a trained network, known by its forward pass on one encoded sequence: the output
      distribution, or the exception the library throws\<close>

datatype artifact =
    VocabJson js_object
  | ModelJson tfmodel "string list"
      \<comment> \<open>a topology file, with the names of the weight files that its manifest lists\<close>
  | WeightsBin
  | LabelsJson "string list"

datatype entry = Dir | File artifact

datatype fs_event =
    MkDir string               \<comment> \<open>\<open>fs.mkdir(path, { recursive: true })\<close>\<close>
  | EnsureDir string           \<comment> \<open>the library's \<open>mkdir(path)\<close>, which accepts a directory that exists\<close>
  | WriteFile string artifact  \<comment> \<open>\<open>writeFile(path, data)\<close>\<close>

record fs =
  entries :: "string \<Rightarrow> entry option"  \<comment> \<open>what is at each path\<close>
  journal :: "fs_event list"               \<comment> \<open>the calls that have taken effect, in order\<close>

type_synonym faults = "string \<Rightarrow> error option"
  \<comment> \<open>the calls that reject for a reason outside the entries (permissions, a full disk,
      the process being stopped before the call), by the path they are made on\<close>

definition MODEL_DIR :: string where "MODEL_DIR = ''./model''"
definition VOCAB_PATH :: string where "VOCAB_PATH = MODEL_DIR @ ''/vocabulary.json''"
definition MODEL_PATH :: string where "MODEL_PATH = ''file://'' @ MODEL_DIR @ ''/model.json''"
definition LABELS_PATH :: string where "LABELS_PATH = MODEL_DIR @ ''/labels.json''"

definition url_path :: "string \<Rightarrow> string" where
  \<comment> \<open>the path of a \<open>file://\<close> URL, as the library's file-system handler takes it\<close>
  "url_path url = drop 7 url"

definition dirname :: "string \<Rightarrow> string" where
  \<comment> \<open>a path without its last component\<close>
  "dirname p = rev (drop 1 (dropWhile (\<lambda>c. c \<noteq> CHR ''/'') (rev p)))"

definition refusal :: "faults \<Rightarrow> fs \<Rightarrow> fs_event \<Rightarrow> error option" where
  \<comment> \<open>Whether a call rejects, and with what. A recursive \<open>mkdir\<close> rejects on a file; the
      library's \<open>mkdir\<close> on a file ("exists as a file") and under a missing parent; a write
      on a directory and under a missing parent.\<close>
  "refusal flt st ev =
     (case ev of
        MkDir p \<Rightarrow>
          (case flt p of
             Some e \<Rightarrow> Some e
           | None \<Rightarrow> (case entries st p of Some (File a) \<Rightarrow> Some (Err ''EEXIST'') | _ \<Rightarrow> None))
      | EnsureDir p \<Rightarrow>
          (case flt p of
             Some e \<Rightarrow> Some e
           | None \<Rightarrow>
               (case entries st p of
                  Some (File a) \<Rightarrow> Some (Err ''Path exists as a file'')
                | Some Dir \<Rightarrow> None
                | None \<Rightarrow> if entries st (dirname p) = Some Dir then None else Some (Err ''ENOENT'')))
      | WriteFile p a \<Rightarrow>
          (case flt p of
             Some e \<Rightarrow> Some e
           | None \<Rightarrow>
               (case entries st p of
                  Some Dir \<Rightarrow> Some (Err ''EISDIR'')
                | _ \<Rightarrow> if entries st (dirname p) = Some Dir then None else Some (Err ''ENOENT''))))"

definition effect :: "fs_event \<Rightarrow> fs \<Rightarrow> fs" where
  \<comment> \<open>what a call that does not reject leaves\<close>
  "effect ev st =
     (case ev of
        MkDir p \<Rightarrow> st\<lparr>entries := (entries st)(p \<mapsto> Dir), journal := journal st @ [ev]\<rparr>
      | EnsureDir p \<Rightarrow> st\<lparr>entries := (entries st)(p \<mapsto> Dir), journal := journal st @ [ev]\<rparr>
      | WriteFile p a \<Rightarrow> st\<lparr>entries := (entries st)(p \<mapsto> File a), journal := journal st @ [ev]\<rparr>)"

definition perform :: "faults \<Rightarrow> fs \<Rightarrow> fs_event \<Rightarrow> error + fs" where
  \<comment> \<open>one awaited call on the file system; a call that rejects leaves the store as it was\<close>
  "perform flt st ev = (case refusal flt st ev of Some e \<Rightarrow> Inl e | None \<Rightarrow> Inr (effect ev st))"

definition tf_save :: "faults \<Rightarrow> fs \<Rightarrow> string \<Rightarrow> tfmodel \<Rightarrow> error option \<times> fs" where
  \<comment> \<open>\<open>model.save(url)\<close> with the file-system handler of \<open>tfjs-node\<close>: the path of the URL
      is taken as a directory, made or found, and \<open>model.json\<close> and then \<open>weights.bin\<close>
      are written into it. The result is the rejection, if any, and the store as left.
      Paths are kept as they are written, without normalisation.\<close>
  "tf_save flt st url m =
     (let path = url_path url
      in case perform flt st (EnsureDir path) of
           Inl e \<Rightarrow> (Some e, st)
         | Inr st1 \<Rightarrow>
             (case perform flt st1 (WriteFile (path @ ''/model.json'') (ModelJson m [''weights.bin''])) of
                Inl e \<Rightarrow> (Some e, st1)
              | Inr st2 \<Rightarrow>
                  (case perform flt st2 (WriteFile (path @ ''/weights.bin'') WeightsBin) of
                     Inl e \<Rightarrow> (Some e, st2)
                   | Inr st3 \<Rightarrow> (None, st3))))"

definition tf_loadLayersModel :: "fs \<Rightarrow> string \<Rightarrow> error + tfmodel" where
  \<comment> \<open>\<open>tf.loadLayersModel(url)\<close> with the same handler: the path of the URL must be a
      topology file (a directory is refused), and every weight file that its manifest
      names must be a file beside it\<close>
  "tf_loadLayersModel st url =
     (let path = url_path url
      in case entries st path of
           None \<Rightarrow> Inl (Err ''ENOENT'')
         | Some Dir \<Rightarrow> Inl (Err ''The path to topology file needs to be a file path'')
         | Some (File (ModelJson m manifest)) \<Rightarrow>
             if list_all (\<lambda>w. entries st (dirname path @ ''/'' @ w) = Some (File WeightsBin)) manifest
             then Inr m else Inl (Err ''Weight file does not exist'')
         | Some (File a) \<Rightarrow> Inl (Err ''not a topology file''))"

fun unique_first :: "string list \<Rightarrow> string list \<Rightarrow> string list" where
  \<comment> \<open>\<open>[...new Set(labels)]\<close>: a set keeps its elements in the order of first insertion\<close>
  "unique_first seen [] = seen"
| "unique_first seen (x # xs) = unique_first (if x \<in> set seen then seen else seen @ [x]) xs"

fun from_entries :: "js_object \<Rightarrow> nat \<Rightarrow> string list \<Rightarrow> js_object" where
  \<comment> \<open>\<open>Object.fromEntries(uniqueLabels.map((label, i) => [label, i]))\<close>, which defines
      own properties (no setter runs)\<close>
  "from_entries obj i [] = obj"
| "from_entries obj i (k # ks) = from_entries (own_update obj k (Num (int i))) (Suc i) ks"

datatype train_outcome =
    NoTrainingData  \<comment> \<open>\<open>console.error("Cannot train model: No training data provided.")\<close> and return\<close>
  | Rejected error  \<comment> \<open>an awaited call rejected, and so does \<open>trainModel\<close>\<close>
  | Trained         \<comment> \<open>the run reached its end\<close>

type_synonym fit_fun = "jsval list list \<Rightarrow> jsval list \<Rightarrow> nat \<Rightarrow> error + tfmodel"
  \<comment> \<open>the library part of a run (the tensors, \<open>createModel(numClasses)\<close> and \<open>model.fit\<close>),
      from the sequences, the numeric labels and the number of classes: the fitted model,
      or the rejection\<close>

definition trainModel ::
  "faults \<Rightarrow> engine \<Rightarrow> fit_fun \<Rightarrow> email_doc list \<Rightarrow> fs \<Rightarrow> train_outcome \<times> fs" where
  \<comment> \<open>Every awaited call can reject, and the run ends there; the store is returned as
      the run leaves it.\<close>
  "trainModel flt engine fit emails st =
     (if length emails = 0 then (NoTrainingData, st)
      else
        let vocabulary = createVocabulary engine emails
        in case perform flt st (MkDir MODEL_DIR) of
             Inl e \<Rightarrow> (Rejected e, st)
           | Inr st1 \<Rightarrow>
               (case perform flt st1 (WriteFile VOCAB_PATH (VocabJson vocabulary)) of
                  Inl e \<Rightarrow> (Rejected e, st1)
                | Inr st2 \<Rightarrow>
                    let sequences = map (\<lambda>email. textToSequence (content email) vocabulary) emails;
                        labels = map label emails;
                        uniqueLabels = unique_first [] labels;
                        labelMap = from_entries [] 0 uniqueLabels;
                        numericLabels = map (\<lambda>l. get_prop labelMap l) labels
                    in case fit sequences numericLabels (length uniqueLabels) of
                         Inl e \<Rightarrow> (Rejected e, st2)
                       | Inr model \<Rightarrow>
                           (case tf_save flt st2 MODEL_PATH model of
                              (Some e, st') \<Rightarrow> (Rejected e, st')
                            | (None, st3) \<Rightarrow>
                                (case perform flt st3 (WriteFile LABELS_PATH (LabelsJson uniqueLabels)) of
                                   Inl e \<Rightarrow> (Rejected e, st3)
                                 | Inr st4 \<Rightarrow> (Trained, st4)))))"

section \<open>The classifier object\<close>

record classifier =
  cl_model :: "tfmodel option"
  cl_vocabulary :: "js_object option"
  cl_labels :: "string list option"

definition new_Classifier :: classifier where
  "new_Classifier = \<lparr>cl_model = None, cl_vocabulary = None, cl_labels = None\<rparr>"

datatype exit = Exit nat
  \<comment> \<open>\<open>process.exit(code)\<close>\<close>

definition load :: "fs \<Rightarrow> classifier \<Rightarrow> exit + classifier" where
  \<comment> \<open>A missing file, or one that does not hold what its path is for, makes the read
      throw. The labels file is read into the local \<open>labelsData\<close> and nothing else is
      done with it.\<close>
  "load st this =
     (case tf_loadLayersModel st MODEL_PATH of
        Inr m \<Rightarrow>
          (case entries st VOCAB_PATH of
             Some (File (VocabJson vocabData)) \<Rightarrow>
               (case entries st LABELS_PATH of
                  Some (File labelsData) \<Rightarrow>
                    Inr (this\<lparr>cl_model := Some m, cl_vocabulary := Some vocabData\<rparr>)
                | _ \<Rightarrow> Inl (Exit 1))
           | _ \<Rightarrow> Inl (Exit 1))
      | Inl e \<Rightarrow> Inl (Exit 1))"

fun argmax_loop :: "real list \<Rightarrow> nat \<Rightarrow> nat \<Rightarrow> real \<Rightarrow> nat" where
  "argmax_loop [] i best bestValue = best"
| "argmax_loop (x # xs) i best bestValue =
     (if x > bestValue then argmax_loop xs (Suc i) i x else argmax_loop xs (Suc i) best bestValue)"

definition argMax :: "real list \<Rightarrow> nat option" where
  \<comment> \<open>\<open>prediction.argMax(-1).dataSync()[0]\<close>: the first index of the greatest entry;
      nothing (\<open>undefined\<close>) when there is no entry\<close>
  "argMax xs = (case xs of [] \<Rightarrow> None | x # rest \<Rightarrow> Some (argmax_loop rest 1 0 x))"

definition predict :: "classifier \<Rightarrow> string \<Rightarrow> error + jsval" where
  \<comment> \<open>\<open>Inl\<close>: the forward pass threw (there is no handler in \<open>predict\<close>);
      \<open>Inr Null\<close>: the not-loaded branch; \<open>Inr Undefined\<close>: an index the label array
      does not have\<close>
  "predict this emailContent =
     (case (cl_model this, cl_vocabulary this, cl_labels this) of
        (Some m, Some vocab, Some labels) \<Rightarrow>
          (let sequence = textToSequence emailContent vocab
           in case forward m sequence of
                Inl e \<Rightarrow> Inl e
              | Inr prediction \<Rightarrow>
                  (case argMax prediction of
                     None \<Rightarrow> Inr Undefined
                   | Some predictedIndex \<Rightarrow>
                       Inr (if predictedIndex < length labels then Str (labels ! predictedIndex)
                            else Undefined)))
      | _ \<Rightarrow> Inr Null)"

section \<open>The mail provider: fetching documents\<close>

datatype part = Part "string option" "string option" "part list option"
  \<comment> \<open>a MIME part: \<open>mimeType\<close>, \<open>body?.data\<close> and \<open>parts\<close>, each possibly missing\<close>

fun parse_parts :: "(string \<Rightarrow> string) \<Rightarrow> part list \<Rightarrow> string" where
  \<comment> \<open>the \<open>for\<close> loop of \<open>parseEmailBody\<close>; \<open>decode\<close> is
      \<open>Buffer.from(data, "base64").toString("utf8")\<close>\<close>
  "parse_parts decode [] = []"
| "parse_parts decode (Part mimeType data parts # rest) =
     (if mimeType = Some ''text/plain'' \<and> data \<noteq> None \<and> data \<noteq> Some []
      then decode (the data)
      else case parts of
             None \<Rightarrow> parse_parts decode rest
           | Some sub \<Rightarrow>
               (let body = parse_parts decode sub
                in if body \<noteq> [] then body else parse_parts decode rest))"

definition parseEmailBody :: "(string \<Rightarrow> string) \<Rightarrow> part list option \<Rightarrow> string" where
  "parseEmailBody decode parts = (case parts of None \<Rightarrow> [] | Some ps \<Rightarrow> parse_parts decode ps)"

record header =
  hname :: "string option"
  hvalue :: "string option"

record payload =
  headers :: "header list option"
  parts :: "part list option"

record email =
  payload :: "payload option"

record message_stub =
  msg_id :: "string option"

record list_response =
  messages :: "message_stub list option"
  nextPageToken :: "string option"

record added =
  message :: "message_stub option"

record history_record =
  messagesAdded :: "added list option"

record history_response =
  history :: "history_record list option"

record label_entry =
  label_id :: "string option"
  label_name :: "string option"

record gmail_api =
  messages_list :: "string \<Rightarrow> int \<Rightarrow> string option \<Rightarrow> error + list_response"
    \<comment> \<open>\<open>users.messages.list\<close> on \<open>q\<close>, \<open>maxResults\<close> and \<open>pageToken\<close>\<close>
  messages_get :: "string \<Rightarrow> error + email option"
    \<comment> \<open>\<open>users.messages.get\<close> on \<open>id\<close>: the response's \<open>data\<close>\<close>
  history_list :: "string \<Rightarrow> error + history_response"
    \<comment> \<open>\<open>users.history.list\<close> on \<open>startHistoryId\<close>: the response's \<open>data\<close>\<close>
  labels_list :: "error + label_entry list option"
    \<comment> \<open>\<open>users.labels.list\<close>: the response's \<open>data.labels\<close>\<close>
  messages_modify :: "string \<Rightarrow> string list \<Rightarrow> error + unit"
    \<comment> \<open>\<open>users.messages.modify\<close> on \<open>id\<close> and \<open>addLabelIds\<close>\<close>

definition subject_of :: "email \<Rightarrow> string" where
  \<comment> \<open>\<open>headers?.find((h) => h.name === "Subject")?.value || ""\<close>\<close>
  "subject_of em =
     (case payload em of
        None \<Rightarrow> []
      | Some pl \<Rightarrow>
          (case headers pl of
             None \<Rightarrow> []
           | Some hs \<Rightarrow>
               (case find (\<lambda>h. hname h = Some ''Subject'') hs of
                  None \<Rightarrow> []
                | Some h \<Rightarrow> (case hvalue h of None \<Rightarrow> [] | Some v \<Rightarrow> v))))"

definition body_of :: "(string \<Rightarrow> string) \<Rightarrow> email \<Rightarrow> string" where
  \<comment> \<open>\<open>parseEmailBody(email.payload?.parts)\<close>\<close>
  "body_of decode em =
     parseEmailBody decode (case payload em of None \<Rightarrow> None | Some pl \<Rightarrow> parts pl)"

definition training_text :: "string \<Rightarrow> string \<Rightarrow> string" where
  \<comment> \<open>\<open>getEmailsForLabel\<close>: \<open>`${subject} ${body}`.replace(/\s+/g, " ").trim()\<close>\<close>
  "training_text subject body = trim (collapse_ws (subject @ '' '' @ body))"

definition inference_text :: "string \<Rightarrow> string \<Rightarrow> string" where
  \<comment> \<open>\<open>getEmailContent\<close>: \<open>`${subject} ${body}`.replace(/\s+/g, "").trim()\<close>\<close>
  "inference_text subject body = trim (delete_ws (subject @ '' '' @ body))"

definition knownCategories :: "string list" where
  "knownCategories = [''primary'', ''social'', ''promotions'', ''updates'', ''forums'']"

definition query_for :: "string \<Rightarrow> string" where
  "query_for labelOrCategory =
     (if toLowerCase labelOrCategory \<in> set knownCategories
      then ''category:'' @ toLowerCase labelOrCategory
      else ''label:'' @ replace_first_space (toLowerCase labelOrCategory))"

fun get_emails :: "gmail_api \<Rightarrow> message_stub list \<Rightarrow> error + email option list" where
  \<comment> \<open>\<open>Promise.all(chunk.map(...))\<close>: the data of every message that has an id, \<open>null\<close>
      for one without; one rejected request rejects the whole\<close>
  "get_emails gmail [] = Inr []"
| "get_emails gmail (m # ms) =
     (case (if msg_id m \<noteq> None \<and> msg_id m \<noteq> Some [] then messages_get gmail (the (msg_id m))
            else Inr None) of
        Inl e \<Rightarrow> Inl e
      | Inr em \<Rightarrow> (case get_emails gmail ms of Inl e \<Rightarrow> Inl e | Inr ems \<Rightarrow> Inr (em # ems)))"

fun push_emails ::
  "(string \<Rightarrow> string) \<Rightarrow> string \<Rightarrow> email_doc list \<Rightarrow> email option list \<Rightarrow> email_doc list" where
  \<comment> \<open>\<open>for (const email of emails)\<close>: a document is pushed for each email with a body\<close>
  "push_emails decode labelOrCategory trainingData [] = trainingData"
| "push_emails decode labelOrCategory trainingData (None # emails) =
     push_emails decode labelOrCategory trainingData emails"
| "push_emails decode labelOrCategory trainingData (Some em # emails) =
     (let subject = subject_of em;
          body = body_of decode em
      in if body \<noteq> []
         then push_emails decode labelOrCategory
                (trainingData @ [\<lparr>content = training_text subject body, label = labelOrCategory\<rparr>])
                emails
         else push_emails decode labelOrCategory trainingData emails)"

function chunk_loop ::
  "gmail_api \<Rightarrow> (string \<Rightarrow> string) \<Rightarrow> string \<Rightarrow> message_stub list \<Rightarrow> nat \<Rightarrow> email_doc list
     \<Rightarrow> error + email_doc list" where
  \<comment> \<open>\<open>for (let i = 0; i < messages.length; i += chunkSize)\<close> with \<open>chunkSize = 10\<close>\<close>
  "chunk_loop gmail decode labelOrCategory msgs i trainingData =
     (if i < length msgs
      then (let chunk = take 10 (drop i msgs)
            in case get_emails gmail chunk of
                 Inl e \<Rightarrow> Inl e
               | Inr emails \<Rightarrow>
                   chunk_loop gmail decode labelOrCategory msgs (i + 10)
                     (push_emails decode labelOrCategory trainingData emails))
      else Inr trainingData)"
  by pat_completeness auto
termination
  by (relation "measure (\<lambda>(gmail, decode, labelOrCategory, msgs, i, trainingData). length msgs - i)")
     auto

declare chunk_loop.simps [simp del]

partial_function (option) fetch_loop ::
  "gmail_api \<Rightarrow> (string \<Rightarrow> string) \<Rightarrow> string \<Rightarrow> string \<Rightarrow> int \<Rightarrow> email_doc list \<Rightarrow> string option
     \<Rightarrow> (error + email_doc list) option" where
  \<comment> \<open>\<open>while (trainingData.length < maxResults)\<close>. \<open>None\<close>: the loop does not end.
      \<open>Some (Inl e)\<close>: a request rejected.\<close>
  "fetch_loop gmail decode query labelOrCategory maxResults trainingData pageToken =
     (if int (length trainingData) < maxResults
      then (case messages_list gmail query (min 50 (maxResults - int (length trainingData)))
                   (if pageToken = Some [] then None else pageToken) of
              Inl e \<Rightarrow> Some (Inl e)
            | Inr listResponse \<Rightarrow>
                (case messages listResponse of
                   None \<Rightarrow> Some (Inr trainingData)
                 | Some msgs \<Rightarrow>
                     if length msgs = 0 then Some (Inr trainingData)
                     else (case chunk_loop gmail decode labelOrCategory msgs 0 trainingData of
                             Inl e \<Rightarrow> Some (Inl e)
                           | Inr trainingData' \<Rightarrow>
                               if nextPageToken listResponse = None
                                  \<or> nextPageToken listResponse = Some []
                               then Some (Inr trainingData')
                               else fetch_loop gmail decode query labelOrCategory maxResults
                                      trainingData' (nextPageToken listResponse))))
      else Some (Inr trainingData))"

definition getEmailsForLabel ::
  "gmail_api \<Rightarrow> (string \<Rightarrow> string) \<Rightarrow> string \<Rightarrow> int \<Rightarrow> (error + email_doc list) option" where
  "getEmailsForLabel gmail decode labelOrCategory maxResults =
     fetch_loop gmail decode (query_for labelOrCategory) labelOrCategory maxResults [] None"

definition getEmailContent :: "gmail_api \<Rightarrow> (string \<Rightarrow> string) \<Rightarrow> string \<Rightarrow> jsval" where
  \<comment> \<open>a rejected request is caught and gives \<open>null\<close>\<close>
  "getEmailContent gmail decode messageId =
     (case messages_get gmail messageId of
        Inl e \<Rightarrow> Null
      | Inr None \<Rightarrow> Null
      | Inr (Some em) \<Rightarrow> Str (inference_text (subject_of em) (body_of decode em)))"

section \<open>The webhook\<close>

datatype call =
    HistoryList string        \<comment> \<open>\<open>gmail.users.history.list\<close>\<close>
  | GetEmailContent string    \<comment> \<open>\<open>getEmailContent(gmail, messageId)\<close>\<close>
  | Predict string            \<comment> \<open>\<open>classifier.predict(content)\<close>\<close>
  | ApplyLabel string string  \<comment> \<open>\<open>applyLabelToEmail(gmail, messageId, predictedLabel)\<close>\<close>
  | LabelsList                \<comment> \<open>\<open>gmail.users.labels.list\<close>\<close>
  | Modify string "string list"  \<comment> \<open>\<open>gmail.users.messages.modify\<close>\<close>

definition applyLabelToEmail :: "gmail_api \<Rightarrow> string \<Rightarrow> string \<Rightarrow> call list" where
  \<comment> \<open>returns nothing and catches every rejection; the result is the requests it made\<close>
  "applyLabelToEmail gmail messageId labelName =
     (case labels_list gmail of
        Inl e \<Rightarrow> [LabelsList]
      | Inr labels \<Rightarrow>
          (case (case labels of None \<Rightarrow> None
                 | Some ls \<Rightarrow> find (\<lambda>l. label_name l = Some labelName) ls) of
             None \<Rightarrow> [LabelsList]
           | Some l \<Rightarrow>
               if label_id l = None \<or> label_id l = Some [] then [LabelsList]
               else [LabelsList, Modify messageId [the (label_id l)]]))"

record notification =
  emailAddress :: string
  historyId :: string

record response =
  status :: nat
  success :: bool
  info :: "string option"            \<comment> \<open>the field \<open>message\<close>\<close>
  predictedLabel :: "string option"
  error_text :: "string option"      \<comment> \<open>the field \<open>error\<close>\<close>

definition json :: "bool \<Rightarrow> string \<Rightarrow> response" where
  \<comment> \<open>\<open>c.json({ success, message })\<close>\<close>
  "json ok text = \<lparr>status = 200, success = ok, info = Some text, predictedLabel = None,
                   error_text = None\<rparr>"

definition internal_server_error :: response where
  \<comment> \<open>\<open>c.json({ success: false, error: "Internal Server Error" }, 500)\<close>\<close>
  "internal_server_error = \<lparr>status = 500, success = False, info = None, predictedLabel = None,
                             error_text = Some ''Internal Server Error''\<rparr>"

fun js_string :: "jsval \<Rightarrow> string" where
  \<comment> \<open>the characters of a string value\<close>
  "js_string (Str s) = s"
| "js_string v = []"

definition first_added :: "history_response \<Rightarrow> added list option" where
  \<comment> \<open>\<open>historyResponse.data.history?.[0]?.messagesAdded\<close>\<close>
  "first_added hr =
     (case history hr of None \<Rightarrow> None | Some [] \<Rightarrow> None | Some (h # hs) \<Rightarrow> messagesAdded h)"

definition webhook ::
  "gmail_api \<Rightarrow> (string \<Rightarrow> string) \<Rightarrow> classifier \<Rightarrow> error + notification \<Rightarrow> response \<times> call list" where
  \<comment> \<open>The handler of \<open>POST /webhook\<close>. The request is the decoded notification, or the
      exception that reading and decoding the body throws. The result is the
      acknowledgment and the calls made, in order.\<close>
  "webhook gmail decode classifier request =
     (case request of
        Inl e \<Rightarrow> (internal_server_error, [])
      | Inr messageData \<Rightarrow>
          (case history_list gmail (historyId messageData) of
             Inl e \<Rightarrow> (internal_server_error, [HistoryList (historyId messageData)])
           | Inr historyResponse \<Rightarrow>
               (case first_added historyResponse of
                  None \<Rightarrow>
                    (json True ''No new messages in history.'', [HistoryList (historyId messageData)])
                | Some [] \<Rightarrow>
                    (json True ''No new messages in history.'', [HistoryList (historyId messageData)])
                | Some (a # as) \<Rightarrow>
                    (case (case message a of None \<Rightarrow> None | Some m \<Rightarrow> msg_id m) of
                       None \<Rightarrow> (json True ''Message ID missing.'', [HistoryList (historyId messageData)])
                     | Some messageId \<Rightarrow>
                         if messageId = []
                         then (json True ''Message ID missing.'', [HistoryList (historyId messageData)])
                         else
                           let content = getEmailContent gmail decode messageId;
                               calls = [HistoryList (historyId messageData), GetEmailContent messageId]
                           in if \<not> truthy content
                              then (json False ''Content fetch failed.'', calls)
                              else
                                (case predict classifier (js_string content) of
                                   Inl e \<Rightarrow> (internal_server_error, calls @ [Predict (js_string content)])
                                 | Inr predicted \<Rightarrow>
                                     if \<not> truthy predicted
                                     then (json False ''Prediction failed.'',
                                           calls @ [Predict (js_string content)])
                                     else
                                       (\<lparr>status = 200, success = True, info = None,
                                          predictedLabel = Some (js_string predicted),
                                          error_text = None\<rparr>,
                                        calls @ [Predict (js_string content),
                                                 ApplyLabel messageId (js_string predicted)]
                                          @ applyLabelToEmail gmail messageId (js_string predicted)))))))"

section \<open>Properties of runs\<close>






definition permuting :: "engine \<Rightarrow> bool" where
  \<comment> \<open>whatever the order, the engine's sort returns the elements it was given\<close>
  "permuting engine =
     (\<forall>c xs. set (engine c xs) = set xs \<and> length (engine c xs) = length xs)"

definition from_message :: "gmail_api \<Rightarrow> (string \<Rightarrow> string) \<Rightarrow> string \<Rightarrow> email_doc \<Rightarrow> bool" where
  \<comment> \<open>the document carries the requested name and was built from a message that the
      provider serves and whose plain-text body is not empty\<close>
  "from_message gmail decode labelOrCategory d =
     (label d = labelOrCategory \<and>
      (\<exists>i em. messages_get gmail i = Inr (Some em) \<and> body_of decode em \<noteq> []
          \<and> content d = training_text (subject_of em) (body_of decode em)))"

definition honours_maxResults :: "gmail_api \<Rightarrow> bool" where
  \<comment> \<open>a page of \<open>users.messages.list\<close> has at most the \<open>maxResults\<close> messages asked for\<close>
  "honours_maxResults gmail =
     (\<forall>q n t resp ms. 1 \<le> n \<longrightarrow> messages_list gmail q n t = Inr resp \<longrightarrow> messages resp = Some ms
            \<longrightarrow> int (length ms) \<le> n)"

definition finite_pages :: "(string option \<Rightarrow> nat) \<Rightarrow> gmail_api \<Rightarrow> bool" where
  \<comment> \<open>the chain of page tokens ends: every next page token is lower than the token of
      the page that carries it, in the measure \<open>\<mu>\<close>\<close>
  "finite_pages \<mu> gmail =
     (\<forall>q n t resp. messages_list gmail q n t = Inr resp \<longrightarrow> nextPageToken resp \<noteq> None
            \<longrightarrow> nextPageToken resp \<noteq> Some [] \<longrightarrow> \<mu> (nextPageToken resp) < \<mu> t)"

definition fetched :: "gmail_api \<Rightarrow> (string \<Rightarrow> string) \<Rightarrow> string \<Rightarrow> int \<Rightarrow> email_doc list \<Rightarrow> bool" where
  \<comment> \<open>the invariant of the \<open>while\<close> loop of \<open>getEmailsForLabel\<close>\<close>
  "fetched gmail decode labelOrCategory maxResults trainingData =
     (int (length trainingData) \<le> maxResults
      \<and> (\<forall>d \<in> set trainingData. from_message gmail decode labelOrCategory d))"

definition new_items :: "history_response \<Rightarrow> added list" where
  \<comment> \<open>the added messages that a history response lists, over all its records\<close>
  "new_items hr =
     concat (map (\<lambda>h. case messagesAdded h of None \<Rightarrow> [] | Some items \<Rightarrow> items)
                 (case history hr of None \<Rightarrow> [] | Some hs \<Rightarrow> hs))"

fun acts :: "call \<Rightarrow> bool" where
  \<comment> \<open>the call is a prediction, or the label application or one of its requests\<close>
  "acts (HistoryList h) = False"
| "acts (GetEmailContent i) = False"
| "acts (Predict t) = True"
| "acts (ApplyLabel i l) = True"
| "acts LabelsList = True"
| "acts (Modify i ls) = True"

definition is_upper :: "char \<Rightarrow> bool" where
  "is_upper c = (65 \<le> (of_char c :: nat) \<and> (of_char c :: nat) \<le> 90)"

definition lower_word :: "string \<Rightarrow> bool" where
  \<comment> \<open>a non-empty string of \<open>\w\<close> characters, none of them a capital letter\<close>
  "lower_word t = (t \<noteq> [] \<and> list_all (\<lambda>c. is_word c \<and> \<not> is_upper c) t)"

definition corpus_tokens :: "email_doc list \<Rightarrow> string list" where
  \<comment> \<open>the tokens of a corpus, in the order in which \<open>createVocabulary\<close> counts them\<close>
  "corpus_tokens emails = concat (map (\<lambda>email. tokens_of (content email)) emails)"

definition topWords_of :: "engine \<Rightarrow> email_doc list \<Rightarrow> string list" where
  \<comment> \<open>the array \<open>topWords\<close> of \<open>createVocabulary\<close>\<close>
  "topWords_of engine emails =
     (let wordCounts = count_emails [] emails
      in take (VOCAB_SIZE - 2)
           (js_sort engine (\<lambda>a b. js_sub (get_prop wordCounts b) (get_prop wordCounts a))
              (object_keys wordCounts)))"

definition valid_id :: "js_object \<Rightarrow> jsval \<Rightarrow> bool" where
  \<comment> \<open>an integer in \<open>[0, |V|)\<close>\<close>
  "valid_id V v = (case v of Num n \<Rightarrow> 0 \<le> n \<and> n < int (vocab_size V) | _ \<Rightarrow> False)"

definition counts_table :: "js_object \<Rightarrow> bool" where
  \<comment> \<open>every own property is a positive number, and none is named \<open>__proto__\<close>\<close>
  "counts_table wc =
     (\<forall>k v. map_of wc k = Some v \<longrightarrow> (\<exists>n. v = Num n \<and> 0 < n) \<and> k \<noteq> ''__proto__'')"

definition count_of :: "js_object \<Rightarrow> string \<Rightarrow> int" where
  "count_of wc k = (case map_of wc k of Some (Num n) \<Rightarrow> n | _ \<Rightarrow> 0)"

definition count_value :: "jsval \<Rightarrow> bool" where
  \<comment> \<open>what the word-count table holds: a positive number, or a string that starts with
      the text of a built-in function (and so converts to \<open>NaN\<close>)\<close>
  "count_value v =
     (case v of Num n \<Rightarrow> 0 < n | Str s \<Rightarrow> take 9 s = ''function '' | _ \<Rightarrow> False)"

section \<open>Concrete inputs\<close>

definition no_entries :: "string \<Rightarrow> entry option" where
  "no_entries p = None"

definition empty_store :: fs where
  "empty_store = \<lparr>entries = no_entries, journal = []\<rparr>"

definition no_faults :: faults where
  "no_faults p = None"


definition idle_engine :: engine where
  \<comment> \<open>stands for the engine in the concrete runs below: their comparisons are
      consistent (\<open>sample_vocabulary\<close>), so it is never consulted\<close>
  "idle_engine c xs = xs"


definition constant_forward :: "jsval list \<Rightarrow> error + real list" where
  "constant_forward sequence = Inr [1 / 4, 3 / 4]"

definition succeeding_fit :: fit_fun where
  "succeeding_fit sequences numericLabels numClasses = Inr (Model constant_forward)"

definition sample_corpus :: "email_doc list" where
  "sample_corpus = [\<lparr>content = ''hello world'', label = ''Primary''\<rparr>,
                    \<lparr>content = ''big sale'', label = ''Promotions''\<rparr>]"

definition mixed_corpus :: "email_doc list" where
  \<comment> \<open>a corpus on which the comparison of \<open>createVocabulary\<close> is not consistent\<close>
  "mixed_corpus = [\<lparr>content = ''a b b constructor c c'', label = ''Primary''\<rparr>]"

definition bundle_store :: fs where
  \<comment> \<open>a bundle that \<open>load\<close> can read: the three files, and the weight file of the model\<close>
  "bundle_store =
     \<lparr>entries = no_entries
        (''./model'' \<mapsto> Dir,
         ''./model/model.json'' \<mapsto> File (ModelJson (Model constant_forward) [''weights.bin'']),
         ''./model/weights.bin'' \<mapsto> File WeightsBin,
         ''./model/vocabulary.json'' \<mapsto> File (VocabJson (createVocabulary idle_engine sample_corpus)),
         ''./model/labels.json'' \<mapsto> File (LabelsJson [''Primary'', ''Promotions''])),
      journal = []\<rparr>"

definition loaded_classifier :: classifier where
  "loaded_classifier = \<lparr>cl_model = Some (Model constant_forward),
                         cl_vocabulary = Some (createVocabulary idle_engine sample_corpus),
                         cl_labels = None\<rparr>"

definition decode_sample :: "string \<Rightarrow> string" where
  \<comment> \<open>base64 decoding, on the data of the sample messages\<close>
  "decode_sample data =
     (if data = ''dGhlcmU='' then ''there'' else if data = ''bm93'' then ''now'' else [])"

definition sample_email :: email where
  "sample_email =
     \<lparr>payload = Some \<lparr>headers = Some [\<lparr>hname = Some ''Subject'', hvalue = Some ''Hi''\<rparr>],
                       parts = Some [Part (Some ''text/plain'') (Some ''dGhlcmU='') None]\<rparr>\<rparr>"

definition sample_email2 :: email where
  "sample_email2 =
     \<lparr>payload = Some \<lparr>headers = Some [\<lparr>hname = Some ''Subject'', hvalue = Some ''Sale''\<rparr>],
                       parts = Some [Part (Some ''multipart/alternative'') None
                                       (Some [Part (Some ''text/html'') (Some ''PGI+'') None,
                                              Part (Some ''text/plain'') (Some ''bm93'') None])]\<rparr>\<rparr>"

definition sample_list :: "string \<Rightarrow> int \<Rightarrow> string option \<Rightarrow> error + list_response" where
  \<comment> \<open>two pages of one message each\<close>
  "sample_list q n t =
     (if t = None
      then Inr \<lparr>messages = Some (take (nat n) [\<lparr>msg_id = Some ''m1''\<rparr>]),
                nextPageToken = Some ''p2''\<rparr>
      else Inr \<lparr>messages = Some (take (nat n) [\<lparr>msg_id = Some ''m2''\<rparr>]),
                nextPageToken = None\<rparr>)"

definition sample_get :: "string \<Rightarrow> error + email option" where
  "sample_get i =
     (if i = ''m1'' then Inr (Some sample_email)
      else if i = ''m2'' then Inr (Some sample_email2)
      else Inl (Err ''not found''))"

definition greedy_list :: "string \<Rightarrow> int \<Rightarrow> string option \<Rightarrow> error + list_response" where
  \<comment> \<open>a provider that answers every request with one page of three messages\<close>
  "greedy_list q n t =
     Inr \<lparr>messages = Some [\<lparr>msg_id = Some ''m1''\<rparr>, \<lparr>msg_id = Some ''m2''\<rparr>,
                            \<lparr>msg_id = Some ''m1''\<rparr>],
          nextPageToken = None\<rparr>"

definition sample_tokens :: "string option \<Rightarrow> nat" where
  "sample_tokens t = (if t = None then 1 else 0)"

definition empty_history :: "string \<Rightarrow> error + history_response" where
  "empty_history h = Inr \<lparr>history = None\<rparr>"

definition blank_history :: "string \<Rightarrow> error + history_response" where
  "blank_history h = Inr \<lparr>history = Some [\<lparr>messagesAdded = Some []\<rparr>]\<rparr>"

definition sample_history :: "string \<Rightarrow> error + history_response" where
  "sample_history h =
     Inr \<lparr>history = Some [\<lparr>messagesAdded = Some [\<lparr>message = Some \<lparr>msg_id = Some ''m3''\<rparr>\<rparr>]\<rparr>]\<rparr>"

definition sample_modify :: "string \<Rightarrow> string list \<Rightarrow> error + unit" where
  "sample_modify i ls = Inr ()"

definition sample_gmail :: gmail_api where
  "sample_gmail =
     \<lparr>messages_list = sample_list, messages_get = sample_get, history_list = sample_history,
      labels_list = Inr (Some [\<lparr>label_id = Some ''Label_1'', label_name = Some ''Primary''\<rparr>]),
      messages_modify = sample_modify\<rparr>"

definition greedy_gmail :: gmail_api where
  "greedy_gmail =
     \<lparr>messages_list = greedy_list, messages_get = sample_get, history_list = sample_history,
      labels_list = Inr (Some [\<lparr>label_id = Some ''Label_1'', label_name = Some ''Primary''\<rparr>]),
      messages_modify = sample_modify\<rparr>"

definition sample_notification :: notification where
  "sample_notification = \<lparr>emailAddress = ''me@example.com'', historyId = ''1001''\<rparr>"

section \<open>The classifier object: loading and predicting\<close>

text \<open>
  C1. After a successful \<open>load()\<close>, \<open>predict\<close> should return the label at the argmax index
  of the model's output. In the code \<open>load\<close> reads the labels file and never assigns
  \<open>this.labels\<close>, so the guard of \<open>predict\<close> still finds a missing field: on every
  store from which \<open>load\<close> succeeds and on every text, \<open>predict\<close> returns \<open>null\<close>.
\<close>

theorem predict_after_load_null:
  "load st new_Classifier = Inr c \<Longrightarrow> predict c text = Inr Null"
  by (auto simp: load_def new_Classifier_def predict_def
           split: sum.splits option.splits entry.splits artifact.splits)

theorem predict_after_load_null_witness:
  "load bundle_store new_Classifier = Inr loaded_classifier
   \<and> predict loaded_classifier ''hello world'' = Inr Null"
proof -
  have l: "load bundle_store new_Classifier = Inr loaded_classifier"
    by (simp add: load_def tf_loadLayersModel_def bundle_store_def url_path_def dirname_def
          MODEL_PATH_def VOCAB_PATH_def LABELS_PATH_def MODEL_DIR_def new_Classifier_def
          loaded_classifier_def Let_def)
  show ?thesis using l predict_after_load_null [OF l, of "''hello world''"] by simp
qed

text \<open>
  C7. Before \<open>load()\<close> every field of the classifier is \<open>null\<close>, and \<open>predict\<close> takes its
  not-loaded branch on every text: it returns \<open>null\<close>, which is neither an exception nor
  a label.
\<close>

theorem predict_not_loaded:
  "predict new_Classifier text = Inr Null"
  by (simp add: predict_def new_Classifier_def)

section \<open>Training: what reaches the store, and when\<close>

text \<open>
  C6. On an empty document list \<open>trainModel\<close> takes its no-training-data branch and
  returns the store as it was given: no directory and no file is created.
\<close>

theorem trainModel_empty:
  "trainModel flt engine fit [] st = (NoTrainingData, st)"
  by (simp add: trainModel_def)













lemma load_after_training_exits:
  "load (snd (trainModel no_faults idle_engine succeeding_fit sample_corpus empty_store))
     new_Classifier = Inl (Exit 1)"
  by (simp add: trainModel_def tf_save_def perform_def refusal_def effect_def sample_corpus_def
        succeeding_fit_def Let_def load_def tf_loadLayersModel_def empty_store_def no_entries_def
        no_faults_def url_path_def dirname_def MODEL_PATH_def VOCAB_PATH_def LABELS_PATH_def
        MODEL_DIR_def)

lemma retrain_over_bundle_rejects:
  "fst (trainModel no_faults idle_engine succeeding_fit sample_corpus bundle_store)
     = Rejected (Err ''Path exists as a file'')"
  by (simp add: trainModel_def tf_save_def perform_def refusal_def effect_def sample_corpus_def
        succeeding_fit_def Let_def bundle_store_def no_entries_def
        no_faults_def url_path_def dirname_def MODEL_PATH_def VOCAB_PATH_def LABELS_PATH_def
        MODEL_DIR_def)

section \<open>Tokens\<close>

lemma lower_char_not_upper: "\<not> is_upper (lower_char c)"
proof -
  have "of_char (char_of (n + 32 :: nat)) = n + 32" if "n \<le> 222" for n
    using that by simp
  then show ?thesis
    by (auto simp: is_upper_def lower_char_def Let_def)
qed

lemma split_ws_last:
  assumes "dropWhile (\<lambda>c. \<not> is_space c) s = []"
  shows "split_ws s = [takeWhile (\<lambda>c. \<not> is_space c) s]"
  using assms split_ws.simps [of s] by (simp only: Let_def simp_thms if_True)

lemma split_ws_more:
  assumes "dropWhile (\<lambda>c. \<not> is_space c) s \<noteq> []"
  shows "split_ws s = takeWhile (\<lambda>c. \<not> is_space c) s
                        # split_ws (dropWhile is_space (dropWhile (\<lambda>c. \<not> is_space c) s))"
  using assms split_ws.simps [of s] by (simp only: Let_def if_False)

lemma split_ws_fields:
  "f \<in> set (split_ws s) \<Longrightarrow> set f \<subseteq> set s \<and> list_all (\<lambda>c. \<not> is_space c) f"
proof (induction s arbitrary: f rule: split_ws.induct)
  case (1 s)
  let ?field = "takeWhile (\<lambda>c. \<not> is_space c) s"
  let ?rest = "dropWhile (\<lambda>c. \<not> is_space c) s"
  have field: "set ?field \<subseteq> set s \<and> list_all (\<lambda>c. \<not> is_space c) ?field"
    by (auto simp: list_all_iff dest: set_takeWhileD)
  show ?case
  proof (cases "?rest = []")
    case True
    then have "split_ws s = [?field]" by (rule split_ws_last)
    with "1.prems" have "f = ?field" by simp
    with field show ?thesis by simp
  next
    case False
    then have "split_ws s = ?field # split_ws (dropWhile is_space ?rest)" by (rule split_ws_more)
    with "1.prems" consider "f = ?field" | "f \<in> set (split_ws (dropWhile is_space ?rest))"
      by auto
    then show ?thesis
    proof cases
      case 1
      with field show ?thesis by simp
    next
      case 2
      from "1.IH" [OF refl refl False 2]
      have "set f \<subseteq> set (dropWhile is_space ?rest)" and "list_all (\<lambda>c. \<not> is_space c) f"
        by simp_all
      moreover have "set (dropWhile is_space ?rest) \<subseteq> set s"
        by (meson set_dropWhileD subsetI)
      ultimately show ?thesis by blast
    qed
  qed
qed

lemma tokens_of_lower_word:
  assumes "t \<in> set (tokens_of text)"
  shows "lower_word t"
proof -
  let ?clean = "strip_non_word (toLowerCase text)"
  from assms have ne: "t \<noteq> []" and f: "t \<in> set (split_ws ?clean)"
    by (auto simp: tokens_of_def Let_def)
  from split_ws_fields [OF f] have sub: "set t \<subseteq> set ?clean"
    and nsp: "list_all (\<lambda>c. \<not> is_space c) t" by simp_all
  have "is_word c \<and> \<not> is_upper c" if "c \<in> set t" for c
  proof -
    from that sub have c: "c \<in> set ?clean" by blast
    then have "is_word c \<or> is_space c" by (simp add: strip_non_word_def)
    moreover from that nsp have "\<not> is_space c" by (simp add: list_all_iff)
    moreover from c have "\<not> is_upper c"
      by (auto simp: strip_non_word_def toLowerCase_def lower_char_not_upper)
    ultimately show ?thesis by blast
  qed
  with ne show ?thesis by (simp add: lower_word_def list_all_iff)
qed

lemma lower_word_not_reserved:
  assumes "lower_word t"
  shows "t \<noteq> ''<PAD>''" and "t \<noteq> ''<UNK>''"
    and "object_prototype t = Undefined \<or> t = ''constructor'' \<or> t = ''__proto__''"
proof -
  show "t \<noteq> ''<PAD>''" "t \<noteq> ''<UNK>''"
    using assms by (auto simp: lower_word_def is_word_def)
  have "t \<noteq> s" if "list_ex is_upper s" for s
    using assms that by (auto simp: lower_word_def list_all_iff list_ex_iff)
  then have "t \<notin> set [''hasOwnProperty'', ''isPrototypeOf'', ''propertyIsEnumerable'',
                       ''toLocaleString'', ''toString'', ''valueOf'', ''__defineGetter__'',
                       ''__defineSetter__'', ''__lookupGetter__'', ''__lookupSetter__'']"
    by (auto simp: is_upper_def)
  then show "object_prototype t = Undefined \<or> t = ''constructor'' \<or> t = ''__proto__''"
    by (auto simp: object_prototype_def)
qed

section \<open>Plain objects: own properties and keys\<close>

lemma map_of_own_update: "map_of (own_update ps k v) = (map_of ps)(k \<mapsto> v)"
  by (induction ps k v rule: own_update.induct) auto

lemma own_update_new: "k \<notin> fst ` set ps \<Longrightarrow> own_update ps k v = ps @ [(k, v)]"
  by (induction ps k v rule: own_update.induct) auto

lemma keys_own_update:
  "map fst (own_update ps k v) = (if k \<in> fst ` set ps then map fst ps else map fst ps @ [k])"
  by (induction ps k v rule: own_update.induct) auto

lemma set_object_keys: "set (object_keys obj) = fst ` set obj"
  by (auto simp: object_keys_def)

lemma distinct_object_keys: "distinct (map fst obj) \<Longrightarrow> distinct (object_keys obj)"
  by (auto simp: object_keys_def)

lemma length_object_keys: "length (object_keys obj) = length obj"
  using sum_length_filter_compl [of is_array_index "map fst obj"]
  by (simp add: object_keys_def)

lemma set_js_insert: "set (js_insert cmp x ys) = insert x (set ys)"
  by (induction ys) auto

lemma set_stable_sort: "set (stable_sort cmp xs) = set xs"
  by (induction xs) (auto simp: stable_sort_def set_js_insert)

lemma length_js_insert: "length (js_insert cmp x ys) = Suc (length ys)"
  by (induction ys) auto

lemma length_stable_sort: "length (stable_sort cmp xs) = length xs"
  by (induction xs) (auto simp: stable_sort_def length_js_insert)

lemma set_js_sort: "permuting engine \<Longrightarrow> set (js_sort engine cmp xs) = set xs"
  by (simp add: js_sort_def set_stable_sort permuting_def)

lemma length_js_sort: "permuting engine \<Longrightarrow> length (js_sort engine cmp xs) = length xs"
  by (simp add: js_sort_def length_stable_sort permuting_def)

lemma distinct_js_insert: "distinct (js_insert cmp x ys) = (x \<notin> set ys \<and> distinct ys)"
  by (induction ys) (auto simp: set_js_insert)

lemma distinct_js_sort:
  assumes "permuting engine" and "distinct xs"
  shows "distinct (js_sort engine cmp xs)"
proof -
  have "card (set (js_sort engine cmp xs)) = length (js_sort engine cmp xs)"
    using assms by (simp add: set_js_sort length_js_sort distinct_card)
  then show ?thesis by (rule card_distinct)
qed

lemma js_insert_sorted:
  assumes "\<forall>a \<in> insert x (set ys). \<forall>b \<in> insert x (set ys). sort_compare cmp a b = g b - g a"
    and "sorted_wrt (\<lambda>a b. g b \<le> g a) ys"
  shows "sorted_wrt (\<lambda>a b. g b \<le> (g a :: int)) (js_insert cmp x ys)"
  using assms
proof (induction ys)
  case Nil
  then show ?case by simp
next
  case (Cons y ys)
  have c: "sort_compare cmp x y = g y - g x" using Cons.prems(1) by simp
  show ?case
  proof (cases "sort_compare cmp x y \<le> 0")
    case True
    with c have "g y \<le> g x" by simp
    moreover from Cons.prems(2) have "\<forall>b \<in> set ys. g b \<le> g y" by simp
    ultimately have "\<forall>b \<in> set (y # ys). g b \<le> g x" by auto
    with True Cons.prems(2) show ?thesis by simp
  next
    case False
    with c have xy: "g x \<le> g y" by simp
    have "sorted_wrt (\<lambda>a b. g b \<le> g a) (js_insert cmp x ys)"
      using Cons.IH Cons.prems by simp
    moreover have "\<forall>b \<in> set (js_insert cmp x ys). g b \<le> g y"
      using xy Cons.prems(2) by (simp add: set_js_insert)
    ultimately show ?thesis using False by simp
  qed
qed

lemma stable_sort_sorted:
  assumes "\<forall>a \<in> set xs. \<forall>b \<in> set xs. sort_compare cmp a b = g b - g a"
  shows "sorted_wrt (\<lambda>a b. g b \<le> (g a :: int)) (stable_sort cmp xs)"
  using assms
proof (induction xs)
  case Nil
  then show ?case by (simp add: stable_sort_def)
next
  case (Cons x xs)
  have s: "sorted_wrt (\<lambda>a b. g b \<le> g a) (stable_sort cmp xs)"
    using Cons by simp
  have "sorted_wrt (\<lambda>a b. g b \<le> g a) (js_insert cmp x (stable_sort cmp xs))"
  proof (rule js_insert_sorted [OF _ s])
    show "\<forall>a \<in> insert x (set (stable_sort cmp xs)). \<forall>b \<in> insert x (set (stable_sort cmp xs)).
            sort_compare cmp a b = g b - g a"
      using Cons.prems by (simp add: set_stable_sort)
  qed
  then show ?case by (simp add: stable_sort_def)
qed

lemma consistent_difference:
  assumes "\<forall>a \<in> set xs. \<forall>b \<in> set xs. c a b = g b - (g a :: int)"
  shows "consistent c xs"
  using assms by (auto simp: consistent_def list_all_iff)

lemma js_sort_sorted:
  assumes "\<forall>a \<in> set xs. \<forall>b \<in> set xs. sort_compare cmp a b = g b - g a"
  shows "sorted_wrt (\<lambda>a b. g b \<le> (g a :: int)) (js_sort engine cmp xs)"
  using consistent_difference [OF assms] stable_sort_sorted [OF assms]
  by (simp add: js_sort_def)

section \<open>The word-count table\<close>

lemma count_tokens_append:
  "count_tokens wc (xs @ ys) = count_tokens (count_tokens wc xs) ys"
  by (induction xs arbitrary: wc) auto

lemma count_emails_tokens: "count_emails wc emails = count_tokens wc (corpus_tokens emails)"
  by (induction emails arbitrary: wc) (auto simp: corpus_tokens_def count_tokens_append)

lemma corpus_tokens_lower_word: "t \<in> set (corpus_tokens emails) \<Longrightarrow> lower_word t"
  by (auto simp: corpus_tokens_def tokens_of_lower_word)

lemma count_tokens_keys:
  assumes "\<forall>t \<in> set ts. lower_word t"
    and "distinct (map fst wc)"
    and "\<forall>k \<in> fst ` set wc. lower_word k \<and> k \<noteq> ''__proto__''"
  shows "distinct (map fst (count_tokens wc ts))
       \<and> (\<forall>k \<in> fst ` set (count_tokens wc ts). lower_word k \<and> k \<noteq> ''__proto__'')"
  using assms
proof (induction ts arbitrary: wc)
  case Nil
  then show ?case by simp
next
  case (Cons t ts)
  let ?v = "js_add_one (js_or (get_prop wc t) (Num 0))"
  let ?wc = "set_prop wc t ?v"
  have d: "distinct (map fst ?wc)"
    using Cons.prems(2) by (auto simp: set_prop_def keys_own_update)
  have sub: "fst ` set ?wc \<subseteq> (if t = ''__proto__'' then {} else {t}) \<union> fst ` set wc"
  proof (cases "t = ''__proto__''")
    case True
    with Cons.prems(3) have "map_of wc t = None"
      by (metis domI domD map_of_eq_None_iff not_None_eq)
    with True show ?thesis by (simp add: set_prop_def)
  next
    case False
    have "set (map fst (own_update wc t ?v)) \<subseteq> insert t (set (map fst wc))"
      by (auto simp: keys_own_update)
    with False show ?thesis by (simp add: set_prop_def)
  qed
  have k: "\<forall>k \<in> fst ` set ?wc. lower_word k \<and> k \<noteq> ''__proto__''"
  proof
    fix k
    assume "k \<in> fst ` set ?wc"
    with sub have "k \<in> (if t = ''__proto__'' then {} else {t}) \<union> fst ` set wc" by blast
    then have "(k = t \<and> t \<noteq> ''__proto__'') \<or> k \<in> fst ` set wc"
      by (cases "t = ''__proto__''") simp_all
    then show "lower_word k \<and> k \<noteq> ''__proto__''"
      using Cons.prems(1,3) by auto
  qed
  from Cons.IH [OF _ d k] Cons.prems(1) show ?case by simp
qed

lemma count_tokens_step:
  assumes "counts_table wc" and "lower_word t" and "t \<noteq> ''constructor''"
  shows "counts_table (set_prop wc t (js_add_one (js_or (get_prop wc t) (Num 0))))"
    and "count_of (set_prop wc t (js_add_one (js_or (get_prop wc t) (Num 0)))) k
           = (if k = t \<and> t \<noteq> ''__proto__'' then count_of wc k + 1 else count_of wc k)"
    and "dom (map_of (set_prop wc t (js_add_one (js_or (get_prop wc t) (Num 0)))))
           = dom (map_of wc) \<union> (if t = ''__proto__'' then {} else {t})"
proof -
  let ?v = "js_add_one (js_or (get_prop wc t) (Num 0))"
  have proto: "map_of wc ''__proto__'' = None"
    using assms(1) by (cases "map_of wc ''__proto__''") (auto simp: counts_table_def)
  show "counts_table (set_prop wc t ?v)"
    and "count_of (set_prop wc t ?v) k
           = (if k = t \<and> t \<noteq> ''__proto__'' then count_of wc k + 1 else count_of wc k)"
    and "dom (map_of (set_prop wc t ?v)) = dom (map_of wc) \<union> (if t = ''__proto__'' then {} else {t})"
  proof (atomize (full), cases "t = ''__proto__''")
    case True
    with proto have "set_prop wc t ?v = wc" by (simp add: set_prop_def)
    with assms(1) True proto show
      "counts_table (set_prop wc t ?v)
       \<and> count_of (set_prop wc t ?v) k
           = (if k = t \<and> t \<noteq> ''__proto__'' then count_of wc k + 1 else count_of wc k)
       \<and> dom (map_of (set_prop wc t ?v)) = dom (map_of wc) \<union> (if t = ''__proto__'' then {} else {t})"
      by simp
  next
    case False
    have v: "?v = Num (count_of wc t + 1)" and pos: "0 < count_of wc t + 1"
    proof -
      show "?v = Num (count_of wc t + 1)"
      proof (cases "map_of wc t")
        case None
        moreover have "object_prototype t = Undefined"
          using lower_word_not_reserved(3) [OF assms(2)] assms(3) False by blast
        ultimately show ?thesis by (simp add: get_prop_def js_or_def count_of_def)
      next
        case (Some x)
        with assms(1) obtain n where "x = Num n" "0 < n" by (auto simp: counts_table_def)
        with Some show ?thesis by (simp add: get_prop_def js_or_def count_of_def)
      qed
      show "0 < count_of wc t + 1"
      proof (cases "map_of wc t")
        case None
        then show ?thesis by (simp add: count_of_def)
      next
        case (Some x)
        with assms(1) obtain n where "x = Num n" "0 < n" by (auto simp: counts_table_def)
        with Some show ?thesis by (simp add: count_of_def)
      qed
    qed
    have m: "map_of (set_prop wc t ?v) = (map_of wc)(t \<mapsto> Num (count_of wc t + 1))"
      using False v by (simp add: set_prop_def map_of_own_update)
    have "counts_table (set_prop wc t ?v)"
      using assms(1) pos False unfolding counts_table_def m by auto
    moreover have "count_of (set_prop wc t ?v) k
           = (if k = t \<and> t \<noteq> ''__proto__'' then count_of wc k + 1 else count_of wc k)"
      using False by (simp add: count_of_def m)
    moreover have "dom (map_of (set_prop wc t ?v))
           = dom (map_of wc) \<union> (if t = ''__proto__'' then {} else {t})"
      using False by (simp add: m)
    ultimately show
      "counts_table (set_prop wc t ?v)
       \<and> count_of (set_prop wc t ?v) k
           = (if k = t \<and> t \<noteq> ''__proto__'' then count_of wc k + 1 else count_of wc k)
       \<and> dom (map_of (set_prop wc t ?v)) = dom (map_of wc) \<union> (if t = ''__proto__'' then {} else {t})"
      by blast
  qed
qed

lemma count_tokens_counts:
  assumes "counts_table wc" and "\<forall>t \<in> set ts. lower_word t" and "''constructor'' \<notin> set ts"
  shows "counts_table (count_tokens wc ts)
       \<and> (\<forall>k. count_of (count_tokens wc ts) k
                = count_of wc k + (if k = ''__proto__'' then 0 else int (count_list ts k)))
       \<and> dom (map_of (count_tokens wc ts)) = dom (map_of wc) \<union> (set ts - {''__proto__''})"
  using assms
proof (induction ts arbitrary: wc)
  case Nil
  then show ?case by simp
next
  case (Cons t ts)
  let ?wc = "set_prop wc t (js_add_one (js_or (get_prop wc t) (Num 0)))"
  from Cons.prems have lt: "lower_word t" and nc: "t \<noteq> ''constructor''" by auto
  note step = count_tokens_step [OF Cons.prems(1) lt nc]
  from Cons.prems have "\<forall>t \<in> set ts. lower_word t" "''constructor'' \<notin> set ts" by auto
  from Cons.IH [OF step(1) this]
  have ih1: "counts_table (count_tokens ?wc ts)"
    and ih2: "\<And>k. count_of (count_tokens ?wc ts) k
                = count_of ?wc k + (if k = ''__proto__'' then 0 else int (count_list ts k))"
    and ih3: "dom (map_of (count_tokens ?wc ts)) = dom (map_of ?wc) \<union> (set ts - {''__proto__''})"
    by blast+
  have "count_of (count_tokens ?wc ts) k
          = count_of wc k + (if k = ''__proto__'' then 0 else int (count_list (t # ts) k))" for k
    unfolding ih2 [of k] step(2) [of k] by auto
  moreover have "dom (map_of (count_tokens ?wc ts))
                   = dom (map_of wc) \<union> (set (t # ts) - {''__proto__''})"
    unfolding ih3 step(3) by auto
  ultimately show ?case using ih1 by simp
qed

lemma counts_table_empty: "counts_table []"
  by (simp add: counts_table_def)

lemma wordCounts_numeric:
  assumes "''constructor'' \<notin> set (corpus_tokens emails)"
    and "k \<in> fst ` set (count_emails [] emails)"
  shows "get_prop (count_emails [] emails) k = Num (int (count_list (corpus_tokens emails) k))"
proof -
  let ?ts = "corpus_tokens emails"
  let ?wc = "count_tokens [] ?ts"
  have lw: "\<forall>t \<in> set ?ts. lower_word t" by (simp add: corpus_tokens_lower_word)
  note c = count_tokens_counts [OF counts_table_empty lw assms(1)]
  from assms(2) obtain v where v: "map_of ?wc k = Some v"
    by (metis count_emails_tokens domD dom_map_of_conv_image_fst)
  with c obtain n where n: "v = Num n" and kp: "k \<noteq> ''__proto__''"
    unfolding counts_table_def by blast
  from c have "count_of ?wc k = count_of [] k + (if k = ''__proto__'' then 0 else int (count_list ?ts k))"
    by blast
  with v n kp have "n = int (count_list ?ts k)" by (simp add: count_of_def)
  with v n show ?thesis by (simp add: get_prop_def count_emails_tokens)
qed

lemma count_tokens_values:
  assumes "map_of wc ''__proto__'' = None" and "\<forall>k v. map_of wc k = Some v \<longrightarrow> count_value v"
  shows "map_of (count_tokens wc ts) ''__proto__'' = None
       \<and> (\<forall>k v. map_of (count_tokens wc ts) k = Some v \<longrightarrow> count_value v)"
  using assms
proof (induction ts arbitrary: wc)
  case Nil
  then show ?case by simp
next
  case (Cons t ts)
  let ?v = "js_add_one (js_or (get_prop wc t) (Num 0))"
  let ?wc = "set_prop wc t ?v"
  have p: "map_of ?wc ''__proto__'' = None"
    using Cons.prems(1) by (simp add: set_prop_def map_of_own_update)
  have v: "\<forall>k v. map_of ?wc k = Some v \<longrightarrow> count_value v"
  proof (cases "t = ''__proto__''")
    case True
    with Cons.prems show ?thesis by (simp add: set_prop_def)
  next
    case False
    have "count_value ?v"
    proof (cases "map_of wc t")
      case None
      then have "get_prop wc t = object_prototype t" by (simp add: get_prop_def)
      with False show ?thesis
        by (auto simp: object_prototype_def js_or_def count_value_def native_text_def)
    next
      case (Some x)
      with Cons.prems(2) have "count_value x" by blast
      then consider n where "x = Num n" "0 < n" | s where "x = Str s" "take 9 s = ''function ''"
        by (auto simp: count_value_def split: jsval.splits)
      then show ?thesis
      proof cases
        case 1
        with Some show ?thesis by (simp add: get_prop_def js_or_def count_value_def)
      next
        case 2
        from 2(2) have "length (take 9 s) = 9" by simp
        then have "9 \<le> length s" by simp
        with 2 Some show ?thesis by (auto simp: get_prop_def js_or_def count_value_def)
      qed
    qed
    with False Cons.prems(2) show ?thesis
      by (simp add: set_prop_def map_of_own_update)
  qed
  from Cons.IH [OF p v] show ?case by simp
qed

lemma wordCounts_values:
  assumes "map_of (count_emails [] emails) k = Some v"
  shows "count_value v"
  using assms count_tokens_values [of "[]" "corpus_tokens emails"]
  by (simp add: count_emails_tokens)

section \<open>The vocabulary\<close>

lemma assign_ids_fresh:
  assumes "distinct ws" and "set ws \<inter> fst ` set v = {}" and "''__proto__'' \<notin> set ws"
  shows "assign_ids v i ws = v @ zip ws (map (\<lambda>j. Num (int j + 2)) [i ..< i + length ws])"
  using assms
proof (induction ws arbitrary: v i)
  case Nil
  then show ?case by simp
next
  case (Cons w ws)
  let ?v = "v @ [(w, Num (int i + 2))]"
  from Cons.prems have w: "w \<notin> fst ` set v" "w \<noteq> ''__proto__''" by auto
  then have s: "set_prop v w (Num (int i + 2)) = ?v"
    by (simp add: set_prop_def own_update_new)
  from Cons.prems have "distinct ws" "set ws \<inter> fst ` set ?v = {}" "''__proto__'' \<notin> set ws"
    by auto
  from Cons.IH [OF this, of "Suc i"]
  have "assign_ids ?v (Suc i) ws
          = ?v @ zip ws (map (\<lambda>j. Num (int j + 2)) [Suc i ..< Suc i + length ws])" .
  moreover have "[i ..< i + length (w # ws)] = i # [Suc i ..< Suc i + length ws]"
    using upt_rec [of i "i + length (w # ws)"] by simp
  ultimately show ?case using s by simp
qed

lemma topWords_facts:
  assumes "permuting engine"
  shows "distinct (topWords_of engine emails)"
    and "w \<in> set (topWords_of engine emails) \<Longrightarrow> lower_word w \<and> w \<noteq> ''__proto__''"
    and "length (topWords_of engine emails) \<le> VOCAB_SIZE - 2"
    and "set (topWords_of engine emails) \<subseteq> fst ` set (count_emails [] emails)"
proof -
  let ?wc = "count_emails [] emails"
  let ?sorted = "js_sort engine (\<lambda>a b. js_sub (get_prop ?wc b) (get_prop ?wc a)) (object_keys ?wc)"
  have tw: "topWords_of engine emails = take (VOCAB_SIZE - 2) ?sorted"
    by (simp add: topWords_of_def Let_def)
  have k: "distinct (map fst ?wc) \<and> (\<forall>k \<in> fst ` set ?wc. lower_word k \<and> k \<noteq> ''__proto__'')"
    unfolding count_emails_tokens
    by (rule count_tokens_keys) (simp_all add: corpus_tokens_lower_word)
  then have "distinct ?sorted"
    by (simp add: distinct_js_sort [OF assms] distinct_object_keys)
  then show "distinct (topWords_of engine emails)" by (simp add: tw)
  have sub: "set (topWords_of engine emails) \<subseteq> fst ` set ?wc"
    using set_take_subset [of "VOCAB_SIZE - 2" ?sorted]
    by (simp add: tw set_js_sort [OF assms] set_object_keys)
  then show "set (topWords_of engine emails) \<subseteq> fst ` set (count_emails [] emails)" .
  show "w \<in> set (topWords_of engine emails) \<Longrightarrow> lower_word w \<and> w \<noteq> ''__proto__''"
    using sub k by blast
  show "length (topWords_of engine emails) \<le> VOCAB_SIZE - 2" by (simp add: tw)
qed

lemma createVocabulary_eq:
  assumes "permuting engine"
  shows "createVocabulary engine emails =
     [(''<PAD>'', Num 0), (''<UNK>'', Num 1)]
     @ zip (topWords_of engine emails)
         (map (\<lambda>j. Num (int j + 2)) [0 ..< length (topWords_of engine emails)])"
proof -
  have "set (topWords_of engine emails) \<inter> fst ` set [(''<PAD>'', Num 0), (''<UNK>'', Num 1)] = {}"
    using topWords_facts(2) [OF assms, of _ emails] lower_word_not_reserved(1,2) by auto
  moreover have "''__proto__'' \<notin> set (topWords_of engine emails)"
    using topWords_facts(2) [OF assms, of "''__proto__''" emails] by blast
  ultimately have
    "assign_ids [(''<PAD>'', Num 0), (''<UNK>'', Num 1)] 0 (topWords_of engine emails) =
       [(''<PAD>'', Num 0), (''<UNK>'', Num 1)]
       @ zip (topWords_of engine emails)
           (map (\<lambda>j. Num (int j + 2)) [0 ..< 0 + length (topWords_of engine emails)])"
    by (intro assign_ids_fresh topWords_facts(1) [OF assms])
  then show ?thesis by (simp add: createVocabulary_def topWords_of_def Let_def)
qed

lemma createVocabulary_reserved:
  assumes "permuting engine"
  shows "get_prop (createVocabulary engine emails) ''<PAD>'' = Num 0"
    and "get_prop (createVocabulary engine emails) ''<UNK>'' = Num 1"
  by (simp_all add: createVocabulary_eq [OF assms] get_prop_def)

lemma createVocabulary_size:
  assumes "permuting engine"
  shows "vocab_size (createVocabulary engine emails) = 2 + length (topWords_of engine emails)"
    and "vocab_size (createVocabulary engine emails) \<le> VOCAB_SIZE"
proof -
  show "vocab_size (createVocabulary engine emails) = 2 + length (topWords_of engine emails)"
    by (simp add: vocab_size_def length_object_keys createVocabulary_eq [OF assms])
  with topWords_facts(3) [OF assms, of emails]
  show "vocab_size (createVocabulary engine emails) \<le> VOCAB_SIZE"
    by (simp add: VOCAB_SIZE_def)
qed

lemma createVocabulary_learned:
  assumes "permuting engine" and "j < length (topWords_of engine emails)"
  shows "get_prop (createVocabulary engine emails) (topWords_of engine emails ! j) = Num (int j + 2)"
proof -
  let ?tw = "topWords_of engine emails"
  let ?ids = "map (\<lambda>j. Num (int j + 2)) [0 ..< length ?tw]"
  have w: "?tw ! j \<in> set ?tw" using assms(2) by simp
  have "map_of (zip ?tw ?ids) (?tw ! j) = Some (?ids ! j)"
    using assms(2) topWords_facts(1) [OF assms(1), of emails] by (intro map_of_zip_nth) simp_all
  moreover have "?tw ! j \<noteq> ''<PAD>''" "?tw ! j \<noteq> ''<UNK>''"
    using topWords_facts(2) [OF assms(1) w] lower_word_not_reserved(1,2) by blast+
  ultimately show ?thesis
    using assms(2) by (simp add: createVocabulary_eq [OF assms(1)] get_prop_def)
qed

lemma createVocabulary_absent:
  assumes "permuting engine" and "lower_word t" and "t \<notin> set (topWords_of engine emails)"
  shows "map_of (createVocabulary engine emails) t = None"
proof -
  have "map_of (zip (topWords_of engine emails)
                  (map (\<lambda>j. Num (int j + 2)) [0 ..< length (topWords_of engine emails)])) t = None"
    using assms(3) by (simp add: map_of_zip_is_None)
  with lower_word_not_reserved(1,2) [OF assms(2)] show ?thesis
    by (simp add: createVocabulary_eq [OF assms(1)])
qed

lemma topWords_descending:
  assumes "''constructor'' \<notin> set (corpus_tokens emails)"
    and "i < j" and "j < length (topWords_of engine emails)"
  shows "count_list (corpus_tokens emails) (topWords_of engine emails ! j)
           \<le> count_list (corpus_tokens emails) (topWords_of engine emails ! i)"
proof -
  let ?wc = "count_emails [] emails"
  let ?cmp = "\<lambda>a b. js_sub (get_prop ?wc b) (get_prop ?wc a)"
  let ?g = "\<lambda>k. int (count_list (corpus_tokens emails) k)"
  have "\<forall>a \<in> set (object_keys ?wc). \<forall>b \<in> set (object_keys ?wc).
          sort_compare ?cmp a b = ?g b - ?g a"
    by (simp add: set_object_keys sort_compare_def wordCounts_numeric [OF assms(1)])
  then have "sorted_wrt (\<lambda>a b. ?g b \<le> ?g a) (js_sort engine ?cmp (object_keys ?wc))"
    by (rule js_sort_sorted)
  then have "sorted_wrt (\<lambda>a b. ?g b \<le> ?g a) (topWords_of engine emails)"
    by (simp add: topWords_of_def Let_def sorted_wrt_take)
  from sorted_wrt_nth_less [OF this assms(2,3)] show ?thesis by simp
qed

section \<open>Encoded sequences\<close>

lemma textToSequence_length: "length (textToSequence text V) = MAX_SEQUENCE_LENGTH"
  by (simp add: textToSequence_def padSequence_def Let_def)

lemma textToSequence_truncates:
  assumes "MAX_SEQUENCE_LENGTH \<le> length (tokens_of text)"
  shows "textToSequence text V =
           take MAX_SEQUENCE_LENGTH
             (map (\<lambda>token. js_or (get_prop V token) (get_prop V ''<UNK>'')) (tokens_of text))"
  using assms by (simp add: textToSequence_def padSequence_def Let_def)

lemma textToSequence_pads:
  assumes "length (tokens_of text) < MAX_SEQUENCE_LENGTH"
  shows "textToSequence text V =
           map (\<lambda>token. js_or (get_prop V token) (get_prop V ''<UNK>'')) (tokens_of text)
           @ replicate (MAX_SEQUENCE_LENGTH - length (tokens_of text)) (Num 0)"
  using assms by (simp add: textToSequence_def padSequence_def Let_def)

lemma encode_token:
  assumes "permuting engine" and "lower_word t"
    and "t \<in> set (topWords_of engine emails) \<or> (t \<noteq> ''constructor'' \<and> t \<noteq> ''__proto__'')"
  shows "\<exists>n. js_or (get_prop (createVocabulary engine emails) t)
                  (get_prop (createVocabulary engine emails) ''<UNK>'')
               = Num n \<and> 1 \<le> n \<and> n < int (vocab_size (createVocabulary engine emails))
               \<and> (t \<notin> set (topWords_of engine emails) \<longrightarrow> n = 1)"
proof (cases "t \<in> set (topWords_of engine emails)")
  case True
  then obtain j where j: "j < length (topWords_of engine emails)" "topWords_of engine emails ! j = t"
    by (auto simp: in_set_conv_nth)
  from createVocabulary_learned [OF assms(1) j(1)] j(2)
  have "get_prop (createVocabulary engine emails) t = Num (int j + 2)" by simp
  with j(1) True show ?thesis
    by (simp add: js_or_def createVocabulary_size(1) [OF assms(1)])
next
  case False
  with assms(3) have "object_prototype t = Undefined"
    using lower_word_not_reserved(3) [OF assms(2)] by blast
  with createVocabulary_absent [OF assms(1,2) False]
  have "get_prop (createVocabulary engine emails) t = Undefined" by (simp add: get_prop_def)
  with False show ?thesis
    by (simp add: js_or_def createVocabulary_reserved [OF assms(1)]
          createVocabulary_size(1) [OF assms(1)])
qed

lemma textToSequence_valid_ids:
  assumes "permuting engine"
    and "\<forall>t \<in> set (tokens_of text).
           t \<in> set (topWords_of engine emails) \<or> (t \<noteq> ''constructor'' \<and> t \<noteq> ''__proto__'')"
  shows "list_all (valid_id (createVocabulary engine emails))
           (textToSequence text (createVocabulary engine emails))"
proof -
  let ?V = "createVocabulary engine emails"
  let ?ids = "map (\<lambda>token. js_or (get_prop ?V token) (get_prop ?V ''<UNK>'')) (tokens_of text)"
  have "valid_id ?V v" if "v \<in> set ?ids" for v
  proof -
    from that obtain t where t: "t \<in> set (tokens_of text)"
      "v = js_or (get_prop ?V t) (get_prop ?V ''<UNK>'')" by auto
    from encode_token [OF assms(1) tokens_of_lower_word [OF t(1)]] assms(2) t(1)
    obtain n where "v = Num n" "1 \<le> n" "n < int (vocab_size ?V)" unfolding t(2) by blast
    then show ?thesis by (simp add: valid_id_def)
  qed
  moreover have "valid_id ?V (Num 0)"
    by (simp add: valid_id_def createVocabulary_size(1) [OF assms(1)])
  ultimately show ?thesis
    by (auto simp: textToSequence_def padSequence_def Let_def list_all_iff dest: in_set_takeD)
qed

lemma token_never_padding:
  assumes "permuting engine"
  shows "js_or (get_prop (createVocabulary engine emails) t)
           (get_prop (createVocabulary engine emails) ''<UNK>'') \<noteq> Num 0"
  by (auto simp: js_or_def createVocabulary_reserved [OF assms])

section \<open>Inherited property names\<close>

text \<open>
  C4. Every element of an encoded sequence should be an integer id below the size of the
  vocabulary. The length is always \<open>MAX_SEQUENCE_LENGTH\<close>, truncation keeps the first
  ids and padding appends zeros (\<open>textToSequence_length\<close>, \<open>textToSequence_truncates\<close>,
  \<open>textToSequence_pads\<close>), and the ids are in range as long as no token is an inherited
  property name that the vocabulary has not learned (\<open>textToSequence_valid_ids\<close>). A
  vocabulary is a plain object, though, and \<open>vocabulary[token]\<close> finds the properties
  that every plain object inherits: the token \<open>constructor\<close>, when the corpus has not
  made it a word of the vocabulary, is looked up as the function \<open>Object\<close>, which is
  truthy, so the encoded sequence holds that function in place of the id 1. This is so
  on every engine.
\<close>

theorem textToSequence_inherited_property:
  "vocab_size (createVocabulary engine sample_corpus) = 6
   \<and> textToSequence ''Meet the constructor'' (createVocabulary engine sample_corpus)
       = [Num 1, Num 1, Fn ''Object''] @ replicate 97 (Num 0)"
  by code_simp

lemma sample_vocabulary:
  "createVocabulary engine sample_corpus =
     [(''<PAD>'', Num 0), (''<UNK>'', Num 1), (''hello'', Num 2), (''world'', Num 3),
      (''big'', Num 4), (''sale'', Num 5)]"
  by code_simp

text \<open>
  C5. A token absent from the vocabulary should be encoded as the id 1, and the learned
  words should have their ids in descending order of frequency. The ids 0 and 1 are
  reserved, the size is at most \<open>VOCAB_SIZE\<close>, the learned words have the ids from 2 on
  in the order of \<open>topWords\<close>, and no token is encoded as 0
  (\<open>createVocabulary_reserved\<close>, \<open>createVocabulary_size\<close>, \<open>createVocabulary_learned\<close>,
  \<open>token_never_padding\<close>); the order is descending frequency when the corpus has not the
  token \<open>constructor\<close> (\<open>topWords_descending\<close>). Both parts fail on the names that a
  plain object inherits. The absent token \<open>__proto__\<close> is encoded as the object
  \<open>Object.prototype\<close>. In the word-count table the first count of \<open>constructor\<close> is the
  inherited function plus one, a string, and every later one a longer string: the
  comparator gives \<open>NaN\<close> on it, and the word that occurs twice gets its id after the
  word that occurs once. This is so on every engine.
\<close>

theorem createVocabulary_inherited_property:
  "map_of (createVocabulary engine sample_corpus) ''__proto__'' = None
   \<and> textToSequence ''__proto__'' (createVocabulary engine sample_corpus)
       = ProtoObj # replicate 99 (Num 0)
   \<and> createVocabulary engine [\<lparr>content = ''a constructor constructor'', label = ''Primary''\<rparr>]
       = [(''<PAD>'', Num 0), (''<UNK>'', Num 1), (''a'', Num 2), (''constructor'', Num 3)]"
  by code_simp

lemma mixed_corpus_inconsistent:
  "object_keys (count_emails [] mixed_corpus) = [''a'', ''b'', ''constructor'', ''c'']
   \<and> \<not> consistent
         (sort_compare (\<lambda>a b. js_sub (get_prop (count_emails [] mixed_corpus) b)
                                   (get_prop (count_emails [] mixed_corpus) a)))
         (object_keys (count_emails [] mixed_corpus))"
  by code_simp

section \<open>Fetching documents\<close>

lemma sample_body: "body_of decode_sample sample_email = ''there''"
  by (simp add: body_of_def sample_email_def parseEmailBody_def decode_sample_def)

lemma sample_subject: "subject_of sample_email = ''Hi''"
  by (simp add: subject_of_def sample_email_def)

lemma sample_body2: "body_of decode_sample sample_email2 = ''now''"
  by (simp add: body_of_def sample_email2_def parseEmailBody_def decode_sample_def)

lemma sample_subject2: "subject_of sample_email2 = ''Sale''"
  by (simp add: subject_of_def sample_email2_def)

lemma sample_training_text:
  "training_text ''Hi'' ''there'' = ''Hi there''" "training_text ''Sale'' ''now'' = ''Sale now''"
  by (simp_all add: training_text_def trim_def is_space_def)

lemma sample_chunk1:
  "chunk_loop sample_gmail decode_sample ''Primary'' [\<lparr>msg_id = Some ''m1''\<rparr>] 0 []
     = Inr [\<lparr>content = ''Hi there'', label = ''Primary''\<rparr>]"
  apply (subst chunk_loop.simps)
  apply (simp add: sample_gmail_def sample_get_def sample_body sample_subject sample_training_text)
  apply (subst chunk_loop.simps)
  apply simp
  done

lemma sample_chunk2:
  "chunk_loop sample_gmail decode_sample ''Primary'' [\<lparr>msg_id = Some ''m2''\<rparr>] 0
       [\<lparr>content = ''Hi there'', label = ''Primary''\<rparr>]
     = Inr [\<lparr>content = ''Hi there'', label = ''Primary''\<rparr>,
            \<lparr>content = ''Sale now'', label = ''Primary''\<rparr>]"
  apply (subst chunk_loop.simps)
  apply (simp add: sample_gmail_def sample_get_def sample_body2 sample_subject2 sample_training_text)
  apply (subst chunk_loop.simps)
  apply simp
  done

lemma sample_pages:
  "messages_list sample_gmail q 50 None
     = Inr \<lparr>messages = Some [\<lparr>msg_id = Some ''m1''\<rparr>], nextPageToken = Some ''p2''\<rparr>"
  "messages_list sample_gmail q 50 (Some ''p2'')
     = Inr \<lparr>messages = Some [\<lparr>msg_id = Some ''m2''\<rparr>], nextPageToken = None\<rparr>"
  by (simp_all add: sample_gmail_def sample_list_def)

lemma sample_fetch:
  "getEmailsForLabel sample_gmail decode_sample ''Primary'' 500
     = Some (Inr [\<lparr>content = ''Hi there'', label = ''Primary''\<rparr>,
                  \<lparr>content = ''Sale now'', label = ''Primary''\<rparr>])"
  unfolding getEmailsForLabel_def
  apply (subst fetch_loop.simps)
  apply (simp add: sample_pages sample_chunk1)
  apply (subst fetch_loop.simps)
  apply (simp add: sample_pages sample_chunk2)
  done

text \<open>
  C2. The same email should give the same text on the training path and on the inference
  path. \<open>getEmailsForLabel\<close> replaces each run of white space by one space;
  \<open>getEmailContent\<close> replaces it by the empty string, and so joins the words. For the
  message \<open>m1\<close> (subject \<open>Hi\<close>, body \<open>there\<close>) the training document is \<open>Hi there\<close> and
  the inference content is \<open>Hithere\<close>.
\<close>

theorem fetch_paths_differ:
  "getEmailsForLabel sample_gmail decode_sample ''Primary'' 1
     = Some (Inr [\<lparr>content = ''Hi there'', label = ''Primary''\<rparr>])
   \<and> getEmailContent sample_gmail decode_sample ''m1'' = Str ''Hithere''"
proof -
  have l: "messages_list sample_gmail (query_for ''Primary'') 1 None
     = Inr \<lparr>messages = Some [\<lparr>msg_id = Some ''m1''\<rparr>], nextPageToken = Some ''p2''\<rparr>"
    by (simp add: sample_gmail_def sample_list_def)
  have "getEmailsForLabel sample_gmail decode_sample ''Primary'' 1
     = Some (Inr [\<lparr>content = ''Hi there'', label = ''Primary''\<rparr>])"
    unfolding getEmailsForLabel_def
    apply (subst fetch_loop.simps)
    apply (simp add: l sample_chunk1)
    apply (subst fetch_loop.simps)
    apply simp
    done
  moreover have "getEmailContent sample_gmail decode_sample ''m1'' = Str ''Hithere''"
    by (simp add: getEmailContent_def sample_gmail_def sample_get_def sample_body sample_subject
          inference_text_def trim_def delete_ws_def is_space_def)
  ultimately show ?thesis by simp
qed

lemma get_emails_length: "get_emails gmail ms = Inr ems \<Longrightarrow> length ems = length ms"
  by (induction ms arbitrary: ems) (auto split: sum.splits if_splits)

lemma get_emails_served:
  "get_emails gmail ms = Inr ems \<Longrightarrow> Some em \<in> set ems \<Longrightarrow> \<exists>i. messages_get gmail i = Inr (Some em)"
  by (induction ms arbitrary: ems) (auto split: sum.splits if_splits)

lemma push_emails_length:
  "length (push_emails decode lbl td ems) \<le> length td + length ems"
proof (induction decode lbl td ems rule: push_emails.induct)
  case (3 decode lbl td em ems)
  then show ?case by (auto simp: Let_def le_Suc_eq)
qed auto

lemma push_emails_docs:
  "d \<in> set (push_emails decode lbl td ems) \<Longrightarrow>
     d \<in> set td \<or> (\<exists>em. Some em \<in> set ems \<and> body_of decode em \<noteq> []
                      \<and> d = \<lparr>content = training_text (subject_of em) (body_of decode em), label = lbl\<rparr>)"
proof (induction decode lbl td ems rule: push_emails.induct)
  case (3 decode lbl td em ems)
  then show ?case by (fastforce simp: Let_def split: if_splits)
qed auto

lemma chunk_loop_step:
  assumes "i < length msgs" and "chunk_loop gmail decode lbl msgs i td = Inr td'"
  obtains emails where "get_emails gmail (take 10 (drop i msgs)) = Inr emails"
    and "chunk_loop gmail decode lbl msgs (i + 10) (push_emails decode lbl td emails) = Inr td'"
  using assms
  by (simp add: chunk_loop.simps [of gmail decode lbl msgs i td] Let_def split: sum.splits)

lemma chunk_loop_length:
  "chunk_loop gmail decode lbl msgs i td = Inr td' \<Longrightarrow> length td' \<le> length td + (length msgs - i)"
proof (induction gmail decode lbl msgs i td rule: chunk_loop.induct)
  case (1 gmail decode lbl msgs i td)
  show ?case
  proof (cases "i < length msgs")
    case False
    with "1.prems" show ?thesis by (simp add: chunk_loop.simps [of gmail decode lbl msgs i td])
  next
    case True
    from chunk_loop_step [OF True "1.prems"] obtain emails where
      g: "get_emails gmail (take 10 (drop i msgs)) = Inr emails" and
      r: "chunk_loop gmail decode lbl msgs (i + 10) (push_emails decode lbl td emails) = Inr td'"
      by blast
    have "length td' \<le> length (push_emails decode lbl td emails) + (length msgs - (i + 10))"
      using "1.IH" [OF True refl g r] .
    moreover have "length (push_emails decode lbl td emails) \<le> length td + length emails"
      by (rule push_emails_length)
    moreover have "length emails = min 10 (length msgs - i)"
      using get_emails_length [OF g] by simp
    ultimately show ?thesis using True by linarith
  qed
qed

lemma chunk_loop_docs:
  "chunk_loop gmail decode lbl msgs i td = Inr td' \<Longrightarrow> d \<in> set td' \<Longrightarrow>
     d \<in> set td \<or> from_message gmail decode lbl d"
proof (induction gmail decode lbl msgs i td rule: chunk_loop.induct)
  case (1 gmail decode lbl msgs i td)
  show ?case
  proof (cases "i < length msgs")
    case False
    with "1.prems" show ?thesis by (simp add: chunk_loop.simps [of gmail decode lbl msgs i td])
  next
    case True
    from chunk_loop_step [OF True "1.prems"(1)] obtain emails where
      g: "get_emails gmail (take 10 (drop i msgs)) = Inr emails" and
      r: "chunk_loop gmail decode lbl msgs (i + 10) (push_emails decode lbl td emails) = Inr td'"
      by blast
    from "1.IH" [OF True refl g r "1.prems"(2)]
    consider "d \<in> set (push_emails decode lbl td emails)" | "from_message gmail decode lbl d"
      by blast
    then show ?thesis
    proof cases
      case 1
      from push_emails_docs [OF 1] show ?thesis
      proof
        assume "d \<in> set td"
        then show ?thesis by simp
      next
        assume "\<exists>em. Some em \<in> set emails \<and> body_of decode em \<noteq> []
                  \<and> d = \<lparr>content = training_text (subject_of em) (body_of decode em), label = lbl\<rparr>"
        then obtain em where e: "Some em \<in> set emails" "body_of decode em \<noteq> []"
          "d = \<lparr>content = training_text (subject_of em) (body_of decode em), label = lbl\<rparr>"
          by blast
        from get_emails_served [OF g e(1)] obtain i where "messages_get gmail i = Inr (Some em)" ..
        with e have "from_message gmail decode lbl d" unfolding from_message_def by auto
        then show ?thesis by simp
      qed
    next
      case 2
      then show ?thesis by simp
    qed
  qed
qed

lemma fetch_loop_invariant:
  assumes "fetch_loop gmail decode query lbl maxResults td tok = Some r"
  shows "honours_maxResults gmail \<longrightarrow> fetched gmail decode lbl maxResults td \<longrightarrow>
           (\<forall>docs. r = Inr docs \<longrightarrow> fetched gmail decode lbl maxResults docs)"
  apply (rule fetch_loop.raw_induct
           [where P = "\<lambda>gmail decode query lbl maxResults td tok r.
                         honours_maxResults gmail \<longrightarrow> fetched gmail decode lbl maxResults td \<longrightarrow>
                           (\<forall>docs. r = Inr docs \<longrightarrow> fetched gmail decode lbl maxResults docs)",
            OF _ assms])
  subgoal premises prems for loop gmail decode query lbl maxResults td tok r
  proof (intro impI allI)
    note IH = prems(1) and eq = prems(2)
    fix docs
    assume h: "honours_maxResults gmail" and inv: "fetched gmail decode lbl maxResults td"
      and r: "r = Inr docs"
    show "fetched gmail decode lbl maxResults docs"
    proof (cases "int (length td) < maxResults")
      case False
      with eq r inv show ?thesis by auto
    next
      case True
      let ?n = "min 50 (maxResults - int (length td))"
      from True have n1: "1 \<le> ?n" by simp
      from True eq r obtain resp where
        l: "messages_list gmail query ?n (if tok = Some [] then None else tok) = Inr resp"
        by (auto split: sum.splits)
      show ?thesis
      proof (cases "messages resp")
        case None
        with True l eq r inv show ?thesis by auto
      next
        case (Some msgs)
        show ?thesis
        proof (cases "length msgs = 0")
          case True
          with \<open>int (length td) < maxResults\<close> Some l eq r inv show ?thesis by auto
        next
          case False
          from False True Some l eq r obtain td' where
            c: "chunk_loop gmail decode lbl msgs 0 td = Inr td'"
            by (auto split: sum.splits)
          have bound: "int (length msgs) \<le> ?n"
            using h n1 l Some unfolding honours_maxResults_def by blast
          have "int (length td') \<le> maxResults"
            using chunk_loop_length [OF c] bound by simp
          moreover have "\<forall>d \<in> set td'. from_message gmail decode lbl d"
            using chunk_loop_docs [OF c] inv unfolding fetched_def by blast
          ultimately have inv': "fetched gmail decode lbl maxResults td'"
            unfolding fetched_def by simp
          show ?thesis
          proof (cases "nextPageToken resp = None \<or> nextPageToken resp = Some []")
            case True
            with False \<open>int (length td) < maxResults\<close> Some l c eq r have "docs = td'"
              by auto
            with inv' show ?thesis by simp
          next
            case nt: False
            with False True Some l c eq have
              "loop gmail decode query lbl maxResults td' (nextPageToken resp) = Some r"
              by auto
            from IH [OF this] h inv' r show ?thesis by blast
          qed
        qed
      qed
    qed
  qed
  done

lemma fetch_loop_returns:
  assumes fp: "finite_pages \<mu> gmail"
  shows "\<exists>r. fetch_loop gmail decode query lbl maxResults td tok = Some r"
proof (induction "\<mu> (if tok = Some [] then None else tok)" arbitrary: td tok rule: less_induct)
  case less
  let ?t = "if tok = Some [] then None else tok"
  let ?n = "min 50 (maxResults - int (length td))"
  show ?case
  proof (cases "int (length td) < maxResults")
    case False
    then show ?thesis by (subst fetch_loop.simps) simp
  next
    case True
    show ?thesis
    proof (cases "messages_list gmail query ?n ?t")
      case (Inl e)
      with True show ?thesis by (subst fetch_loop.simps) simp
    next
      case (Inr resp)
      show ?thesis
      proof (cases "messages resp")
        case None
        with True Inr show ?thesis by (subst fetch_loop.simps) simp
      next
        case (Some msgs)
        show ?thesis
        proof (cases "chunk_loop gmail decode lbl msgs 0 td")
          case (Inl e)
          with True Inr Some show ?thesis by (subst fetch_loop.simps) simp
        next
          case c: (Inr td')
          show ?thesis
          proof (cases "nextPageToken resp = None \<or> nextPageToken resp = Some []")
            case True
            with \<open>int (length td) < maxResults\<close> Inr Some c show ?thesis
              by (subst fetch_loop.simps) auto
          next
            case False
            then have "\<mu> (nextPageToken resp) < \<mu> ?t"
              using fp Inr unfolding finite_pages_def by blast
            moreover have "(if nextPageToken resp = Some [] then None else nextPageToken resp)
                             = nextPageToken resp"
              using False by simp
            ultimately obtain r where
              "fetch_loop gmail decode query lbl maxResults td' (nextPageToken resp) = Some r"
              using less [of "nextPageToken resp" td'] by auto
            with False True Inr Some c show ?thesis
              by (subst fetch_loop.simps) auto
          qed
        qed
      qed
    qed
  qed
qed

lemma fetch_loop_docs:
  assumes "fetch_loop gmail decode query lbl maxResults td tok = Some r"
  shows "(\<forall>d \<in> set td. from_message gmail decode lbl d) \<longrightarrow>
           (\<forall>docs. r = Inr docs \<longrightarrow> (\<forall>d \<in> set docs. from_message gmail decode lbl d))"
  apply (rule fetch_loop.raw_induct
           [where P = "\<lambda>gmail decode query lbl maxResults td tok r.
                         (\<forall>d \<in> set td. from_message gmail decode lbl d) \<longrightarrow>
                           (\<forall>docs. r = Inr docs \<longrightarrow>
                              (\<forall>d \<in> set docs. from_message gmail decode lbl d))",
            OF _ assms])
  subgoal premises prems for loop gmail decode query lbl maxResults td tok r
  proof (intro impI allI)
    note IH = prems(1) and eq = prems(2)
    fix docs
    assume inv: "\<forall>d \<in> set td. from_message gmail decode lbl d" and r: "r = Inr docs"
    show "\<forall>d \<in> set docs. from_message gmail decode lbl d"
    proof (cases "int (length td) < maxResults")
      case False
      with eq r inv show ?thesis by auto
    next
      case True
      let ?n = "min 50 (maxResults - int (length td))"
      from True eq r obtain resp where
        l: "messages_list gmail query ?n (if tok = Some [] then None else tok) = Inr resp"
        by (auto split: sum.splits)
      show ?thesis
      proof (cases "messages resp")
        case None
        with True l eq r inv show ?thesis by auto
      next
        case (Some msgs)
        show ?thesis
        proof (cases "length msgs = 0")
          case True
          with \<open>int (length td) < maxResults\<close> Some l eq r inv show ?thesis by auto
        next
          case False
          from False True Some l eq r obtain td' where
            c: "chunk_loop gmail decode lbl msgs 0 td = Inr td'"
            by (auto split: sum.splits)
          have inv': "\<forall>d \<in> set td'. from_message gmail decode lbl d"
            using chunk_loop_docs [OF c] inv by blast
          show ?thesis
          proof (cases "nextPageToken resp = None \<or> nextPageToken resp = Some []")
            case True
            with False \<open>int (length td) < maxResults\<close> Some l c eq r have "docs = td'"
              by auto
            with inv' show ?thesis by simp
          next
            case nt: False
            with False True Some l c eq have
              "loop gmail decode query lbl maxResults td' (nextPageToken resp) = Some r"
              by auto
            from IH [OF this] inv' r show ?thesis by blast
          qed
        qed
      qed
    qed
  qed
  done

lemma greedy_chunk:
  "chunk_loop greedy_gmail decode_sample ''Primary''
       [\<lparr>msg_id = Some ''m1''\<rparr>, \<lparr>msg_id = Some ''m2''\<rparr>, \<lparr>msg_id = Some ''m1''\<rparr>] 0 []
     = Inr [\<lparr>content = ''Hi there'', label = ''Primary''\<rparr>,
            \<lparr>content = ''Sale now'', label = ''Primary''\<rparr>,
            \<lparr>content = ''Hi there'', label = ''Primary''\<rparr>]"
  apply (subst chunk_loop.simps)
  apply (simp add: greedy_gmail_def sample_get_def sample_body sample_subject sample_body2
           sample_subject2 sample_training_text Let_def)
  apply (subst chunk_loop.simps)
  apply simp
  done

text \<open>
  C10. The claim: for every bound \<open>maxResults\<close>, at most \<open>maxResults\<close> documents are
  returned. The code asks the provider for at most the number still missing and then
  takes every message of the page it is given, without counting: from a provider that
  answers a request for 2 with a page of 3 messages it returns 3 documents. And for a
  negative bound it returns the empty list, whose length is not below the bound.
\<close>

theorem getEmailsForLabel_unbounded_counterexample:
  "getEmailsForLabel greedy_gmail decode_sample ''Primary'' 2
     = Some (Inr [\<lparr>content = ''Hi there'', label = ''Primary''\<rparr>,
                  \<lparr>content = ''Sale now'', label = ''Primary''\<rparr>,
                  \<lparr>content = ''Hi there'', label = ''Primary''\<rparr>])
   \<and> \<not> int (length [\<lparr>content = ''Hi there'', label = ''Primary''\<rparr>,
                      \<lparr>content = ''Sale now'', label = ''Primary''\<rparr>,
                      \<lparr>content = ''Hi there'', label = ''Primary''\<rparr>]) \<le> 2
   \<and> getEmailsForLabel sample_gmail decode_sample ''Primary'' (- 3) = Some (Inr [])
   \<and> \<not> int (length ([] :: email_doc list)) \<le> - 3"
proof -
  have l: "messages_list greedy_gmail (query_for ''Primary'') 2 None
     = Inr \<lparr>messages = Some [\<lparr>msg_id = Some ''m1''\<rparr>, \<lparr>msg_id = Some ''m2''\<rparr>,
                              \<lparr>msg_id = Some ''m1''\<rparr>],
            nextPageToken = None\<rparr>"
    by (simp add: greedy_gmail_def greedy_list_def)
  have "getEmailsForLabel greedy_gmail decode_sample ''Primary'' 2
     = Some (Inr [\<lparr>content = ''Hi there'', label = ''Primary''\<rparr>,
                  \<lparr>content = ''Sale now'', label = ''Primary''\<rparr>,
                  \<lparr>content = ''Hi there'', label = ''Primary''\<rparr>])"
    unfolding getEmailsForLabel_def
    apply (subst fetch_loop.simps)
    apply (simp add: l greedy_chunk)
    done
  moreover have "getEmailsForLabel sample_gmail decode_sample ''Primary'' (- 3) = Some (Inr [])"
    unfolding getEmailsForLabel_def by (subst fetch_loop.simps) simp
  ultimately show ?thesis by simp
qed

text \<open>
  C10, as amended. Every document that \<open>getEmailsForLabel\<close> returns carries the requested
  name as its label and was built from a served message whose plain-text body is not
  empty. When no page of the provider's listing holds more messages than were asked for,
  and \<open>maxResults\<close> is not negative, the documents returned are at most \<open>maxResults\<close>.
  When the chain of page tokens ends, the function does return: with the documents, or
  with the rejection of a request.
\<close>

theorem getEmailsForLabel_bounded:
  "(\<forall>docs. getEmailsForLabel gmail decode labelOrCategory maxResults = Some (Inr docs) \<longrightarrow>
      (\<forall>d \<in> set docs. from_message gmail decode labelOrCategory d)
      \<and> (honours_maxResults gmail \<longrightarrow> 0 \<le> maxResults \<longrightarrow> int (length docs) \<le> maxResults))
   \<and> (finite_pages \<mu> gmail \<longrightarrow>
        (\<exists>r. getEmailsForLabel gmail decode labelOrCategory maxResults = Some r))"
proof (intro conjI allI impI)
  fix docs
  assume g: "getEmailsForLabel gmail decode labelOrCategory maxResults = Some (Inr docs)"
  from fetch_loop_docs [OF g [unfolded getEmailsForLabel_def]]
  show "\<forall>d \<in> set docs. from_message gmail decode labelOrCategory d" by simp
  assume "honours_maxResults gmail" and "0 \<le> maxResults"
  then have "fetched gmail decode labelOrCategory maxResults []"
    by (simp add: fetched_def)
  with fetch_loop_invariant [OF g [unfolded getEmailsForLabel_def]] \<open>honours_maxResults gmail\<close>
  have "fetched gmail decode labelOrCategory maxResults docs" by blast
  then show "int (length docs) \<le> maxResults" by (simp add: fetched_def)
next
  assume "finite_pages \<mu> gmail"
  then show "\<exists>r. getEmailsForLabel gmail decode labelOrCategory maxResults = Some r"
    unfolding getEmailsForLabel_def by (rule fetch_loop_returns)
qed

theorem getEmailsForLabel_bounded_witness:
  "honours_maxResults sample_gmail \<and> (0::int) \<le> 500 \<and> finite_pages sample_tokens sample_gmail
   \<and> getEmailsForLabel sample_gmail decode_sample ''Primary'' 500
       = Some (Inr [\<lparr>content = ''Hi there'', label = ''Primary''\<rparr>,
                    \<lparr>content = ''Sale now'', label = ''Primary''\<rparr>])
   \<and> int (length [\<lparr>content = ''Hi there'', label = ''Primary''\<rparr>,
                   \<lparr>content = ''Sale now'', label = ''Primary''\<rparr>]) \<le> 500
   \<and> from_message sample_gmail decode_sample ''Primary'' \<lparr>content = ''Hi there'', label = ''Primary''\<rparr>
   \<and> from_message sample_gmail decode_sample ''Primary'' \<lparr>content = ''Sale now'', label = ''Primary''\<rparr>"
proof -
  have h: "honours_maxResults sample_gmail"
    by (auto simp: honours_maxResults_def sample_gmail_def sample_list_def split: if_splits)
  have f: "finite_pages sample_tokens sample_gmail"
    by (auto simp: finite_pages_def sample_gmail_def sample_list_def sample_tokens_def
             split: if_splits)
  have z: "(0::int) \<le> 500" by simp
  from getEmailsForLabel_bounded [of sample_gmail decode_sample "''Primary''" 500 sample_tokens]
       sample_fetch h f z
  show ?thesis by simp
qed

lemma getEmailsForLabel_no_request:
  assumes "maxResults \<le> 0"
  shows "getEmailsForLabel gmail decode labelOrCategory maxResults = Some (Inr [])"
  unfolding getEmailsForLabel_def using assms by (subst fetch_loop.simps) simp

section \<open>The webhook\<close>

lemma no_new_items_first_added:
  assumes "new_items hr = []"
  shows "first_added hr = None \<or> first_added hr = Some []"
proof (cases "history hr")
  case None
  then show ?thesis by (simp add: first_added_def)
next
  case (Some hs)
  show ?thesis
  proof (cases hs)
    case Nil
    with Some show ?thesis by (simp add: first_added_def)
  next
    case (Cons h rest)
    with Some assms have "(case messagesAdded h of None \<Rightarrow> [] | Some items \<Rightarrow> items) = []"
      by (simp add: new_items_def)
    then have "messagesAdded h = None \<or> messagesAdded h = Some []"
      by (cases "messagesAdded h") auto
    with Some Cons show ?thesis by (simp add: first_added_def)
  qed
qed

lemma webhook_no_added:
  assumes "history_list gmail (historyId n) = Inr hr"
    and "first_added hr = None \<or> first_added hr = Some []"
  shows "webhook gmail decode cls (Inr n)
           = (json True ''No new messages in history.'', [HistoryList (historyId n)])"
  using assms by (auto simp: webhook_def)

text \<open>
  C8. When the history lookup of an event lists no added message, the handler answers
  with the success acknowledgment \<open>No new messages in history.\<close>, and the history lookup
  is the only call it makes: no prediction and no label application. A second delivery
  of the same checkpoint, whatever the provider then answers as long as it again lists
  no added message, gives the same acknowledgment and again no such call.
\<close>

theorem webhook_no_new_messages:
  assumes "history_list gmail (historyId n) = Inr hr" and "new_items hr = []"
    and "history_list gmail' (historyId n) = Inr hr'" and "new_items hr' = []"
  shows "webhook gmail decode cls (Inr n)
           = (json True ''No new messages in history.'', [HistoryList (historyId n)])
       \<and> webhook gmail' decode cls (Inr n) = webhook gmail decode cls (Inr n)
       \<and> filter acts (snd (webhook gmail decode cls (Inr n))) = []
       \<and> filter acts (snd (webhook gmail' decode cls (Inr n))) = []"
proof -
  have a: "webhook gmail decode cls (Inr n)
             = (json True ''No new messages in history.'', [HistoryList (historyId n)])"
    using assms(1) no_new_items_first_added [OF assms(2)] by (rule webhook_no_added)
  have b: "webhook gmail' decode cls (Inr n)
             = (json True ''No new messages in history.'', [HistoryList (historyId n)])"
    using assms(3) no_new_items_first_added [OF assms(4)] by (rule webhook_no_added)
  show ?thesis by (simp add: a b)
qed

theorem webhook_no_new_messages_witness:
  "history_list (sample_gmail\<lparr>history_list := empty_history\<rparr>) (historyId sample_notification)
     = Inr \<lparr>history = None\<rparr>
   \<and> new_items \<lparr>history = None\<rparr> = []
   \<and> history_list (sample_gmail\<lparr>history_list := blank_history\<rparr>) (historyId sample_notification)
     = Inr \<lparr>history = Some [\<lparr>messagesAdded = Some []\<rparr>]\<rparr>
   \<and> new_items \<lparr>history = Some [\<lparr>messagesAdded = Some []\<rparr>]\<rparr> = []
   \<and> webhook (sample_gmail\<lparr>history_list := empty_history\<rparr>) decode_sample loaded_classifier
         (Inr sample_notification)
       = (json True ''No new messages in history.'', [HistoryList ''1001''])
   \<and> webhook (sample_gmail\<lparr>history_list := blank_history\<rparr>) decode_sample loaded_classifier
         (Inr sample_notification)
       = (json True ''No new messages in history.'', [HistoryList ''1001''])"
proof -
  have h1: "history_list (sample_gmail\<lparr>history_list := empty_history\<rparr>)
              (historyId sample_notification) = Inr \<lparr>history = None\<rparr>"
    by (simp add: empty_history_def)
  have n1: "new_items \<lparr>history = None\<rparr> = []"
    by (simp add: new_items_def)
  have h2: "history_list (sample_gmail\<lparr>history_list := blank_history\<rparr>)
              (historyId sample_notification) = Inr \<lparr>history = Some [\<lparr>messagesAdded = Some []\<rparr>]\<rparr>"
    by (simp add: blank_history_def)
  have n2: "new_items \<lparr>history = Some [\<lparr>messagesAdded = Some []\<rparr>]\<rparr> = []"
    by (simp add: new_items_def)
  from webhook_no_new_messages [OF h1 n1 h2 n2, of decode_sample loaded_classifier] h1 n1 h2 n2
  show ?thesis by (simp add: sample_notification_def)
qed

text \<open>
  C9. When the event names a first added message and \<open>getEmailContent\<close> gives \<open>null\<close>
  for it (the request rejected, or the response had no data) or gives the empty string,
  the handler answers with the failure acknowledgment \<open>Content fetch failed.\<close>; the calls
  it made are the history lookup and the content fetch, with no prediction and no label
  application.
\<close>

theorem webhook_content_unavailable:
  assumes "history_list gmail (historyId n) = Inr hr"
    and "first_added hr = Some (a # rest)"
    and "message a = Some m" and "msg_id m = Some messageId" and "messageId \<noteq> []"
    and "getEmailContent gmail decode messageId = Null
         \<or> getEmailContent gmail decode messageId = Str []"
  shows "webhook gmail decode cls (Inr n)
           = (json False ''Content fetch failed.'',
              [HistoryList (historyId n), GetEmailContent messageId])
       \<and> filter acts (snd (webhook gmail decode cls (Inr n))) = []"
proof -
  from assms(6) have "\<not> truthy (getEmailContent gmail decode messageId)" by auto
  with assms(1-5) have "webhook gmail decode cls (Inr n)
           = (json False ''Content fetch failed.'',
              [HistoryList (historyId n), GetEmailContent messageId])"
    by (simp add: webhook_def Let_def)
  then show ?thesis by simp
qed

theorem webhook_content_unavailable_witness:
  "history_list sample_gmail (historyId sample_notification)
     = Inr \<lparr>history = Some [\<lparr>messagesAdded = Some [\<lparr>message = Some \<lparr>msg_id = Some ''m3''\<rparr>\<rparr>]\<rparr>]\<rparr>
   \<and> first_added \<lparr>history = Some [\<lparr>messagesAdded = Some [\<lparr>message = Some \<lparr>msg_id = Some ''m3''\<rparr>\<rparr>]\<rparr>]\<rparr>
       = Some (\<lparr>message = Some \<lparr>msg_id = Some ''m3''\<rparr>\<rparr> # [])
   \<and> getEmailContent sample_gmail decode_sample ''m3'' = Null
   \<and> webhook sample_gmail decode_sample loaded_classifier (Inr sample_notification)
       = (json False ''Content fetch failed.'', [HistoryList ''1001'', GetEmailContent ''m3''])"
proof -
  have h: "history_list sample_gmail (historyId sample_notification)
     = Inr \<lparr>history = Some [\<lparr>messagesAdded = Some [\<lparr>message = Some \<lparr>msg_id = Some ''m3''\<rparr>\<rparr>]\<rparr>]\<rparr>"
    by (simp add: sample_gmail_def sample_history_def)
  have f: "first_added \<lparr>history = Some [\<lparr>messagesAdded = Some [\<lparr>message = Some \<lparr>msg_id = Some ''m3''\<rparr>\<rparr>]\<rparr>]\<rparr>
       = Some (\<lparr>message = Some \<lparr>msg_id = Some ''m3''\<rparr>\<rparr> # [])"
    by (simp add: first_added_def)
  have m: "message \<lparr>message = Some \<lparr>msg_id = Some ''m3''\<rparr>\<rparr> = Some \<lparr>msg_id = Some ''m3''\<rparr>"
    by simp
  have i: "msg_id \<lparr>msg_id = Some ''m3''\<rparr> = Some ''m3''" by simp
  have ne: "''m3'' \<noteq> []" by simp
  have c: "getEmailContent sample_gmail decode_sample ''m3'' = Null"
    by (simp add: getEmailContent_def sample_gmail_def sample_get_def)
  from webhook_content_unavailable [OF h f m i ne disjI1 [OF c], of loaded_classifier] h f c
  show ?thesis by (simp add: sample_notification_def)
qed

end
